(* ===== verification/Rtb_Prelude.thy ===== *)
theory Rtb_Prelude
  imports "HOL-Library.Word"
begin

unbundle bit_operations_syntax

text \<open>
  Shared material of the development of the RTB engine: the machine integer types the C++
  sources use, the few operations of \<open>std::vector\<close> and \<open>std::string_view\<close> that several
  components call, the collections the component theories extend, and two interfaces for
  components that are driven by a sequence of operations.

  C++ integers keep their width: \<open>std::uint8_t\<close>, \<open>std::uint16_t\<close>, \<open>std::uint32_t\<close> and
  \<open>std::uint64_t\<close> are words of that length, \<open>std::size_t\<close> is the 64 bit word of the
  Linux targets the build supports. A \<open>std::vector\<close> is a list, a \<open>std::string\<close> or
  \<open>std::string_view\<close> is a list of characters (bytes).
\<close>

section \<open>Machine integers\<close>

type_synonym u8 = "8 word"
type_synonym u16 = "16 word"
type_synonym u32 = "32 word"
type_synonym u64 = "64 word"

text \<open>\<open>v.size()\<close>; exact below the \<open>max_size\<close> of a vector, which every use assumes.\<close>

definition vec_size :: "'a list \<Rightarrow> u64" where
  "vec_size xs = word_of_nat (length xs)"

text \<open>No vector or string of a 64 bit process reaches \<open>2 ^ 63\<close> elements.\<close>

definition max_vec :: nat where
  "max_vec = 2 ^ 63"

named_theorems wf_intros "introduction rules for well-formedness invariants"
named_theorems spec_simps "equations that give an operation by its specification"
named_theorems width_simps "values of machine integers as natural numbers"

lemma unat_vec_size [width_simps]:
  "length xs < max_vec \<Longrightarrow> unat (vec_size xs) = length xs"
  by (simp add: vec_size_def max_vec_def unat_of_nat take_bit_nat_eq_self)

lemma vec_size_Nil [simp]: "vec_size [] = 0"
  by (simp add: vec_size_def)

lemma unat_of_nat_u32 [width_simps]:
  "n < 2 ^ 32 \<Longrightarrow> unat (word_of_nat n :: u32) = n"
  by (simp add: unat_of_nat take_bit_nat_eq_self)

lemma unat_of_nat_u64 [width_simps]:
  "n < 2 ^ 64 \<Longrightarrow> unat (word_of_nat n :: u64) = n"
  by (simp add: unat_of_nat take_bit_nat_eq_self)

lemma unat_add_no_wrap:
  fixes a b :: u64
  assumes "unat a + unat b < 2 ^ 64"
  shows "unat (a + b) = unat a + unat b"
  using assms by (simp add: unat_word_ariths)

lemma unat_sub_no_wrap:
  fixes a b :: u64
  assumes "unat b \<le> unat a"
  shows "unat (a - b) = unat a - unat b"
  using assms by (simp add: unat_sub word_le_nat_alt)

lemma unat_ucast_u32_u64 [width_simps]: "unat (ucast (w :: u32) :: u64) = unat w"
  by (simp add: unsigned_ucast_eq take_bit_nat_eq_self unsigned_less [THEN less_trans])

section \<open>Vectors\<close>

text \<open>\<open>v.resize(n)\<close>: keeps the first \<open>n\<close> elements and appends value-initialised ones.\<close>

definition vec_resize :: "'a::zero list \<Rightarrow> nat \<Rightarrow> 'a list" where
  "vec_resize xs n = take n xs @ replicate (n - length xs) 0"

lemma length_vec_resize [simp]: "length (vec_resize xs n) = n"
  by (simp add: vec_resize_def)

lemma take_vec_resize: "k \<le> length xs \<Longrightarrow> length xs \<le> n \<Longrightarrow> take k (vec_resize xs n) = take k xs"
  by (simp add: vec_resize_def)

text \<open>Storing the bytes \<open>ys\<close> at index \<open>i\<close> (\<open>memcpy\<close>, \<open>read\<close>, \<open>std::move\<close> to a range).\<close>

definition overwrite :: "'a list \<Rightarrow> nat \<Rightarrow> 'a list \<Rightarrow> 'a list" where
  "overwrite xs i ys = take i xs @ ys @ drop (i + length ys) xs"

lemma length_overwrite [simp]:
  "i + length ys \<le> length xs \<Longrightarrow> length (overwrite xs i ys) = length xs"
  by (simp add: overwrite_def)

lemma slice_overwrite_append:
  assumes "r \<le> i" "i + length ys \<le> length xs"
  shows "take (i + length ys - r) (drop r (overwrite xs i ys)) = take (i - r) (drop r xs) @ ys"
proof -
  have "take (i + length ys) (overwrite xs i ys) = take i xs @ ys"
    using assms by (simp add: overwrite_def)
  then have "drop r (take (i + length ys) (overwrite xs i ys)) = drop r (take i xs) @ ys"
    using assms by simp
  then show ?thesis by (simp add: drop_take)
qed

section \<open>Searching and cutting strings\<close>

text \<open>The index of the first occurrence of a character.\<close>

fun find_in :: "'a \<Rightarrow> 'a list \<Rightarrow> nat option" where
  "find_in c [] = None"
| "find_in c (x # xs) = (if x = c then Some 0 else map_option Suc (find_in c xs))"

text \<open>\<open>s.find(c, pos)\<close> of \<open>std::string_view\<close>; \<open>None\<close> is \<open>npos\<close>.\<close>

definition find_from :: "'a \<Rightarrow> 'a list \<Rightarrow> nat \<Rightarrow> nat option" where
  "find_from c s pos = map_option (\<lambda>k. pos + k) (find_in c (drop pos s))"

text \<open>The reference notion of cutting a list at a delimiter: \<open>n\<close> delimiters, \<open>n + 1\<close> parts.\<close>

fun split_on :: "'a \<Rightarrow> 'a list \<Rightarrow> 'a list list" where
  "split_on c [] = [[]]"
| "split_on c (x # xs) =
     (if x = c then [] # split_on c xs
      else case split_on c xs of [] \<Rightarrow> [[x]] | ys # yss \<Rightarrow> (x # ys) # yss)"

fun join_with :: "'a \<Rightarrow> 'a list list \<Rightarrow> 'a list" where
  "join_with c [] = []"
| "join_with c [xs] = xs"
| "join_with c (xs # ys # zss) = xs @ c # join_with c (ys # zss)"

lemma find_in_None: "find_in c xs = None \<longleftrightarrow> c \<notin> set xs"
  by (induction xs) auto

lemma find_in_Some:
  "find_in c xs = Some k \<Longrightarrow> k < length xs \<and> xs ! k = c \<and> c \<notin> set (take k xs)"
  by (induction xs arbitrary: k) (auto split: if_splits)

lemma find_from_bounds: "find_from c s i = Some j \<Longrightarrow> i \<le> j \<and> j < length s"
  by (auto simp: find_from_def dest!: find_in_Some)

lemma split_on_nonempty [simp]: "split_on c xs \<noteq> []"
  by (cases xs) (auto split: list.splits)

lemma split_on_absent: "c \<notin> set xs \<Longrightarrow> split_on c xs = [xs]"
  by (induction xs) auto

lemma split_on_at:
  "find_in c xs = Some k \<Longrightarrow> split_on c xs = take k xs # split_on c (drop (Suc k) xs)"
  by (induction xs arbitrary: k) (auto split: if_splits)

lemma join_with_Cons: "xss \<noteq> [] \<Longrightarrow> join_with c (xs # xss) = xs @ c # join_with c xss"
  by (cases xss) auto

lemma join_split_on: "join_with c (split_on c xs) = xs"
proof (induction xs)
  case Nil
  then show ?case by simp
next
  case (Cons x xs)
  obtain y ys where ys: "split_on c xs = y # ys"
    by (cases "split_on c xs") auto
  then show ?case
    using Cons by (cases ys) (auto simp: join_with_Cons)
qed

lemma split_on_append: "c \<notin> set xs \<Longrightarrow> split_on c (xs @ c # ys) = xs # split_on c ys"
  by (induction xs) auto

lemma split_on_join:
  "xss \<noteq> [] \<Longrightarrow> \<forall>xs \<in> set xss. c \<notin> set xs \<Longrightarrow> split_on c (join_with c xss) = xss"
proof (induction xss rule: join_with.induct)
  case (3 c xs ys zss)
  then show ?case by (simp add: split_on_append)
qed (auto simp: split_on_absent)

lemma length_split_on: "length (split_on c xs) = Suc (count_list xs c)"
  by (induction xs) (auto split: list.splits)

lemma split_on_parts: "xs \<in> set (split_on c ys) \<Longrightarrow> c \<notin> set xs"
proof (induction ys arbitrary: xs)
  case Nil
  then show ?case by simp
next
  case (Cons y ys)
  obtain z zs where zs: "split_on c ys = z # zs"
    by (cases "split_on c ys") auto
  have "c \<notin> set z" and rest: "\<forall>w \<in> set zs. c \<notin> set w"
    using Cons.IH zs by auto
  then show ?case
    using Cons.prems zs by (auto split: if_splits)
qed

text \<open>One round of a scan from \<open>start\<close>, as the delimiter loops of the sources do it.\<close>

lemma split_on_scan_None:
  "find_from c s start = None \<Longrightarrow> split_on c (drop start s) = [drop start s]"
  by (simp add: find_from_def find_in_None split_on_absent)

lemma split_on_scan_Some:
  assumes "find_from c s start = Some d"
  shows "split_on c (drop start s) =
    take (d - start) (drop start s) # split_on c (drop (d + 1) s)"
proof -
  from assms obtain k where "find_in c (drop start s) = Some k" and d: "d = start + k"
    by (auto simp: find_from_def)
  from split_on_at [OF this(1)] show ?thesis
    by (simp add: d add.commute)
qed

section \<open>Components driven by a sequence of operations\<close>

text \<open>
  \<open>guarded_run step ok s es\<close>: every operation of \<open>es\<close> is permitted in the state it meets.
\<close>

fun guarded_run :: "('s \<Rightarrow> 'e \<Rightarrow> 's) \<Rightarrow> ('s \<Rightarrow> 'e \<Rightarrow> bool) \<Rightarrow> 's \<Rightarrow> 'e list \<Rightarrow> bool" where
  "guarded_run step ok s [] = True"
| "guarded_run step ok s (e # es) = (ok s e \<and> guarded_run step ok (step s e) es)"

text \<open>The first interface: a component whose operations keep an invariant.\<close>

locale invariant_component =
  fixes step :: "'s \<Rightarrow> 'e \<Rightarrow> 's"
    and ok :: "'s \<Rightarrow> 'e \<Rightarrow> bool"
    and inv :: "'s \<Rightarrow> bool"
  assumes step_inv: "inv s \<Longrightarrow> ok s e \<Longrightarrow> inv (step s e)"
begin

lemma run_inv: "inv s \<Longrightarrow> guarded_run step ok s es \<Longrightarrow> inv (foldl step s es)"
  by (induction es arbitrary: s) (auto intro: step_inv)

end

text \<open>The second: its operations also implement those of an abstract state.\<close>

locale refined_component = invariant_component step ok inv
  for step :: "'s \<Rightarrow> 'e \<Rightarrow> 's" and ok :: "'s \<Rightarrow> 'e \<Rightarrow> bool" and inv :: "'s \<Rightarrow> bool" +
  fixes abs :: "'s \<Rightarrow> 'a"
    and astep :: "'a \<Rightarrow> 'e \<Rightarrow> 'a"
  assumes step_abs: "inv s \<Longrightarrow> ok s e \<Longrightarrow> abs (step s e) = astep (abs s) e"
begin

lemma run_abs:
  "inv s \<Longrightarrow> guarded_run step ok s es \<Longrightarrow> abs (foldl step s es) = foldl astep (abs s) es"
proof (induction es arbitrary: s)
  case Nil
  then show ?case by simp
next
  case (Cons e es)
  then show ?case using step_inv step_abs by simp
qed

end

text \<open>
  The third: a component whose steps need not be possible. Its runs are those of \<open>partial_run\<close>,
  its reachable states the closure of the step relation; an invariant of the steps holds in both.
\<close>

fun partial_run :: "('s \<Rightarrow> 'e \<Rightarrow> 's option) \<Rightarrow> 's \<Rightarrow> 'e list \<Rightarrow> 's option" where
  "partial_run step s [] = Some s"
| "partial_run step s (e # es) = (case step s e of None \<Rightarrow> None | Some s \<Rightarrow> partial_run step s es)"

inductive reached :: "('s \<Rightarrow> 'e \<Rightarrow> 's option) \<Rightarrow> 's \<Rightarrow> 's \<Rightarrow> bool" for step and s0 where
  reached_start: "reached step s0 s0"
| reached_step: "reached step s0 s \<Longrightarrow> step s e = Some s' \<Longrightarrow> reached step s0 s'"

lemma partial_run_append:
  "partial_run step s (es @ es') =
    (case partial_run step s es of None \<Rightarrow> None | Some s \<Rightarrow> partial_run step s es')"
  by (induction es arbitrary: s) (auto split: option.splits)

lemma reached_iff: "reached step s0 s \<longleftrightarrow> (\<exists>es. partial_run step s0 es = Some s)"
proof
  show "reached step s0 s \<Longrightarrow> \<exists>es. partial_run step s0 es = Some s"
  proof (induction rule: reached.induct)
    case reached_start
    show ?case by (rule exI [of _ "[]"]) simp
  next
    case (reached_step s e s')
    then obtain es where "partial_run step s0 es = Some s" by blast
    then have "partial_run step s0 (es @ [e]) = Some s'"
      using reached_step.hyps(2) by (simp add: partial_run_append)
    then show ?case by blast
  qed
  have reach: "partial_run step s1 es = Some s \<Longrightarrow> reached step s0 s1 \<Longrightarrow> reached step s0 s" for es s1
  proof (induction es arbitrary: s1)
    case (Cons e es)
    then obtain s2 where s2: "step s1 e = Some s2" "partial_run step s2 es = Some s"
      by (auto split: option.splits)
    from Cons.IH [OF s2(2) reached.reached_step [OF Cons.prems(2) s2(1)]] show ?case .
  qed simp
  show "\<exists>es. partial_run step s0 es = Some s \<Longrightarrow> reached step s0 s"
    by (elim exE) (erule reach [OF _ reached.reached_start])
qed

locale stepped_component =
  fixes step :: "'s \<Rightarrow> 'e \<Rightarrow> 's option"
    and inv :: "'s \<Rightarrow> bool"
  assumes step_inv: "inv s \<Longrightarrow> step s e = Some s' \<Longrightarrow> inv s'"
begin

lemma reached_inv: "reached step s0 s \<Longrightarrow> inv s0 \<Longrightarrow> inv s"
  by (induction rule: reached.induct) (auto intro: step_inv)

lemma run_inv: "partial_run step s0 es = Some s \<Longrightarrow> inv s0 \<Longrightarrow> inv s"
  by (rule reached_inv [OF iffD2 [OF reached_iff]]) (rule exI)

end

text \<open>A component run by guarded operations is one whose steps are possible where the guard holds.\<close>

definition guarded :: "('s \<Rightarrow> 'e \<Rightarrow> 's) \<Rightarrow> ('s \<Rightarrow> 'e \<Rightarrow> bool) \<Rightarrow> 's \<Rightarrow> 'e \<Rightarrow> 's option" where
  "guarded step ok s e = (if ok s e then Some (step s e) else None)"

lemma guarded_runs: "partial_run (guarded step ok) s es =
    (if guarded_run step ok s es then Some (foldl step s es) else None)"
  by (induction es arbitrary: s) (auto simp: guarded_def)

sublocale invariant_component \<subseteq> states: stepped_component "guarded step ok" inv
  by unfold_locales (auto simp: guarded_def step_inv split: if_splits)

end
