(* ===== verification/Rtb_Float.thy ===== *)
theory Rtb_Float
  imports Complex_Main "HOL-Library.Log_Nat"
begin

text \<open>
  Binary floating point as the sources use it. The finite values of a \<open>double\<close> are rational
  numbers; an arithmetic operation computes the exact rational result and rounds it to the
  nearest representable value, ties to even (IEEE 754, the default rounding mode, no fused
  multiply-add: the build selects strict \<open>-std=c++20\<close>). The sign of zero is not kept: no
  operation of the modelled code can tell \<open>-0.0\<close> from \<open>0.0\<close>.

  \<open>round_to p emin\<close> rounds to \<open>p\<close> significant bits with least exponent \<open>emin\<close>: \<open>53\<close> and
  \<open>-1074\<close> for \<open>double\<close>. Overflow to infinity is decided where a value can get that large
  (the campaign file), by comparison with the largest finite value.
\<close>

type_synonym f64 = rat

section \<open>Rounding\<close>

text \<open>Rounding to an integer, ties to even.\<close>

definition round_even :: "rat \<Rightarrow> int" where
  "round_even x =
    (let f = \<lfloor>x\<rfloor>; r = x - of_int f
     in if r < 1 / 2 then f
        else if 1 / 2 < r then f + 1
        else if even f then f else f + 1)"

text \<open>The exponent of the leading bit of a positive rational.\<close>

definition ilog :: "rat \<Rightarrow> int" where
  "ilog x =
    (let (n, d) = quotient_of x;
         e = bitlen n - bitlen d
     in if 2 powi e \<le> x then e else e - 1)"

definition lsb_exp :: "nat \<Rightarrow> int \<Rightarrow> rat \<Rightarrow> int" where
  "lsb_exp p emin x = max (ilog x - (int p - 1)) emin"

definition round_pos :: "nat \<Rightarrow> int \<Rightarrow> rat \<Rightarrow> rat" where
  "round_pos p emin x =
    (let e = lsb_exp p emin x in of_int (round_even (x / 2 powi e)) * 2 powi e)"

definition round_to :: "nat \<Rightarrow> int \<Rightarrow> rat \<Rightarrow> rat" where
  "round_to p emin x =
    (if x = 0 then 0 else if 0 < x then round_pos p emin x else - round_pos p emin (- x))"

definition f64_of_rat :: "rat \<Rightarrow> f64" where
  "f64_of_rat x = round_to 53 (-1074) x"

definition f64_add :: "f64 \<Rightarrow> f64 \<Rightarrow> f64" where "f64_add x y = f64_of_rat (x + y)"
definition f64_sub :: "f64 \<Rightarrow> f64 \<Rightarrow> f64" where "f64_sub x y = f64_of_rat (x - y)"
definition f64_mul :: "f64 \<Rightarrow> f64 \<Rightarrow> f64" where "f64_mul x y = f64_of_rat (x * y)"
definition f64_div :: "f64 \<Rightarrow> f64 \<Rightarrow> f64" where "f64_div x y = f64_of_rat (x / y)"

text \<open>The largest finite \<open>double\<close>.\<close>

definition f64_max :: f64 where "f64_max = (2 ^ 53 - 1) * 2 ^ 971"

section \<open>Rounding to an integer\<close>

lemma round_even_of_int [simp]: "round_even (of_int n) = n"
  by (simp add: round_even_def)

lemma round_even_mono: "x \<le> y \<Longrightarrow> round_even x \<le> round_even y"
proof -
  assume le: "x \<le> y"
  then have fl: "\<lfloor>x\<rfloor> \<le> \<lfloor>y\<rfloor>" by (rule floor_mono)
  show ?thesis
  proof (cases "\<lfloor>x\<rfloor> = \<lfloor>y\<rfloor>")
    case True
    then show ?thesis using le by (auto simp: round_even_def Let_def)
  next
    case False
    with fl have "\<lfloor>x\<rfloor> + 1 \<le> \<lfloor>y\<rfloor>" by simp
    then show ?thesis by (auto simp: round_even_def Let_def)
  qed
qed

lemma round_even_near: "\<bar>of_int (round_even x) - x\<bar> \<le> 1 / 2"
proof -
  have "0 \<le> x - of_int \<lfloor>x\<rfloor>" "x - of_int \<lfloor>x\<rfloor> < 1"
    using floor_correct [of x] by linarith+
  then show ?thesis by (auto simp: round_even_def Let_def)
qed

section \<open>The leading exponent\<close>

lemma bitlen_powi:
  fixes k :: int
  assumes "0 < k"
  shows "(2::rat) powi (bitlen k - 1) \<le> of_int k" and "of_int k < (2::rat) powi (bitlen k)"
proof -
  have pos: "0 \<le> bitlen k - 1"
    using assms bitlen_nonneg [of k] bitlen_eq_zero_iff [of k] by linarith
  have "2 ^ nat (bitlen k - 1) \<le> k" and "k < 2 ^ nat (bitlen k)"
    using bitlen_bounds [OF assms] by auto
  then have "of_int (2 ^ nat (bitlen k - 1)) \<le> (of_int k :: rat)"
    and "(of_int k :: rat) < of_int (2 ^ nat (bitlen k))"
    unfolding of_int_le_iff of_int_less_iff .
  then show "(2::rat) powi (bitlen k - 1) \<le> of_int k" "of_int k < (2::rat) powi (bitlen k)"
    using pos by (simp_all add: power_int_nonneg_exp)
qed

lemma ilog_bounds:
  assumes "0 < x"
  shows "2 powi (ilog x) \<le> x" and "x < 2 powi (ilog x + 1)"
proof -
  obtain n d where nd: "quotient_of x = (n, d)" by fastforce
  then have d: "0 < d" and x: "x = of_int n / of_int d"
    by (auto intro: quotient_of_denom_pos quotient_of_div)
  with assms have n: "0 < n" by (simp add: zero_less_divide_iff)
  let ?e = "bitlen n - bitlen d"
  have "x < 2 powi (bitlen n) / of_int d"
    using bitlen_powi [OF n] d by (simp add: x divide_strict_right_mono)
  also have "\<dots> \<le> 2 powi (bitlen n) / 2 powi (bitlen d - 1)"
    using bitlen_powi [OF d] d by (intro divide_left_mono) auto
  also have "\<dots> = 2 powi (?e + 1)"
    by (simp add: power_int_diff [symmetric] algebra_simps)
  finally have up: "x < 2 powi (?e + 1)" .
  have "(2::rat) powi (?e - 1) = 2 powi (bitlen n - 1) / 2 powi (bitlen d)"
    by (simp add: power_int_diff [symmetric] algebra_simps)
  also have "\<dots> \<le> of_int n / 2 powi (bitlen d)"
    using bitlen_powi [OF n] by (intro divide_right_mono) auto
  also have "\<dots> \<le> x"
    using bitlen_powi [OF d] n d unfolding x by (intro divide_left_mono) (auto simp: less_imp_le)
  finally have low: "2 powi (?e - 1) \<le> x" .
  show "2 powi (ilog x) \<le> x" "x < 2 powi (ilog x + 1)"
    using up low by (auto simp: ilog_def nd Let_def)
qed

lemma powi_less_cancel: "(2::rat) powi a < 2 powi b \<Longrightarrow> a < b"
  by (metis linorder_not_less power_int_increasing one_le_numeral)

lemma ilog_unique: "2 powi e \<le> x \<Longrightarrow> x < 2 powi (e + 1) \<Longrightarrow> ilog x = e"
proof -
  assume a: "2 powi e \<le> x" "x < 2 powi (e + 1)"
  have "0 < x" using a(1) by (rule less_le_trans [rotated]) simp
  from ilog_bounds [OF this] a have "(2::rat) powi e < 2 powi (ilog x + 1)" "(2::rat) powi ilog x < 2 powi (e + 1)"
    by linarith+
  then show ?thesis by (auto dest!: powi_less_cancel)
qed

lemma ilog_mono: "0 < x \<Longrightarrow> x \<le> y \<Longrightarrow> ilog x \<le> ilog y"
proof -
  assume a: "0 < x" "x \<le> y"
  then have "(2::rat) powi ilog x < 2 powi (ilog y + 1)"
    using ilog_bounds [of x] ilog_bounds [of y] by linarith
  then show ?thesis by (auto dest!: powi_less_cancel)
qed

section \<open>Rounding a rational\<close>

lemma scale_powi:
  "x / 2 powi e < 2 ^ p \<longleftrightarrow> x < (2::rat) powi (e + int p)"
  "2 ^ p \<le> x / 2 powi e \<longleftrightarrow> (2::rat) powi (e + int p) \<le> x"
  by (simp_all add: power_int_add field_simps)

lemma round_pos_mono:
  assumes p: "1 \<le> p" and x: "0 < x" and le: "x \<le> y"
  shows "round_pos p emin x \<le> round_pos p emin y"
proof -
  define ex where "ex = lsb_exp p emin x"
  define ey where "ey = lsb_exp p emin y"
  have y: "0 < y" using x le by linarith
  have "ex \<le> ey"
    using ilog_mono [OF x le] by (auto simp: ex_def ey_def lsb_exp_def)
  then consider "ex = ey" | "ex < ey" by linarith
  then show ?thesis
  proof cases
    case 1
    have "round_even (x / 2 powi ey) \<le> round_even (y / 2 powi ey)"
      using le by (intro round_even_mono divide_right_mono) auto
    then show ?thesis
      by (simp add: round_pos_def ex_def [symmetric] ey_def [symmetric] 1 Let_def)
  next
    case 2
    obtain q where q: "p = Suc q" using p by (cases p) auto
    have ey: "ey = ilog y - int q" and "ilog x - int q \<le> ex" "ilog x \<le> ilog y"
      using 2 ilog_mono [OF x le] by (auto simp: ex_def ey_def lsb_exp_def q max_def split: if_splits)
    have "x < 2 powi (ilog x + 1)" using ilog_bounds [OF x] by simp
    also have "\<dots> \<le> 2 powi (ex + int p)"
      using \<open>ilog x - int q \<le> ex\<close> by (intro power_int_increasing) (auto simp: q)
    finally have "x / 2 powi ex \<le> of_int (2 ^ p)" by (simp add: scale_powi(1) [symmetric] less_imp_le)
    then have "round_even (x / 2 powi ex) \<le> 2 ^ p"
      using round_even_mono round_even_of_int by metis
    then have "(of_int (round_even (x / 2 powi ex)) :: rat) \<le> 2 ^ p"
      by (metis of_int_le_iff of_int_numeral of_int_power)
    then have "round_pos p emin x \<le> 2 ^ p * 2 powi ex"
      by (simp add: round_pos_def ex_def [symmetric] Let_def mult_right_mono)
    also have "\<dots> = 2 powi (ex + int p)" by (simp add: power_int_add)
    also have "\<dots> \<le> 2 powi (ey + int q)"
      using 2 by (intro power_int_increasing) (auto simp: q)
    also have "\<dots> = 2 ^ q * 2 powi ey" by (simp add: power_int_add)
    also have "\<dots> \<le> round_pos p emin y"
    proof -
      have "of_int (2 ^ q) \<le> y / 2 powi ey"
        using ilog_bounds [OF y] by (simp add: scale_powi(2) ey)
      then have "2 ^ q \<le> round_even (y / 2 powi ey)"
        using round_even_mono round_even_of_int by metis
      then have "(2::rat) ^ q \<le> of_int (round_even (y / 2 powi ey))"
        by (metis of_int_le_iff of_int_numeral of_int_power)
      then show ?thesis
        by (simp add: round_pos_def ey_def [symmetric] Let_def mult_right_mono)
    qed
    finally show ?thesis .
  qed
qed

lemma round_pos_nonneg: "0 < x \<Longrightarrow> 0 \<le> round_pos p emin x"
proof -
  assume "0 < x"
  then have "round_even (of_int 0) \<le> round_even (x / 2 powi lsb_exp p emin x)"
    by (intro round_even_mono) simp
  then have "0 \<le> round_even (x / 2 powi lsb_exp p emin x)"
    by (simp only: round_even_of_int)
  then show ?thesis by (simp add: round_pos_def Let_def)
qed

lemma round_to_mono:
  assumes "1 \<le> p" "0 \<le> x" "x \<le> y"
  shows "round_to p emin x \<le> round_to p emin y"
  using assms by (auto simp: round_to_def intro: round_pos_mono round_pos_nonneg)

text \<open>Values of \<open>p\<close> significant bits and no smaller exponent than \<open>emin\<close> are kept.\<close>

lemma round_to_exact:
  assumes p: "1 \<le> p" and m: "0 \<le> m" "m < 2 ^ p" and e: "emin \<le> e"
  shows "round_to p emin (of_int m * 2 powi e) = of_int m * 2 powi e"
proof (cases "m = 0")
  case True
  then show ?thesis by (simp add: round_to_def)
next
  case False
  define x :: rat where "x = of_int m * 2 powi e"
  define l where "l = lsb_exp p emin x"
  have x: "0 < x" using m(1) False by (simp add: x_def)
  have "(of_int m :: rat) < of_int (2 ^ p)" using m(2) unfolding of_int_less_iff .
  then have "x < 2 powi (e + int p)" by (simp add: x_def power_int_add)
  with ilog_bounds(1) [OF x] have "(2::rat) powi ilog x < 2 powi (e + int p)" by linarith
  then have "ilog x < e + int p" by (rule powi_less_cancel)
  then have "l \<le> e" using e by (auto simp: l_def lsb_exp_def)
  then have "x / 2 powi l = of_int (m * 2 ^ nat (e - l))"
    by (simp add: x_def power_int_diff power_int_nonneg_exp [symmetric])
  then have "of_int (round_even (x / 2 powi l)) = x / 2 powi l"
    by (simp only: round_even_of_int)
  then have "round_pos p emin x = x" by (simp add: round_pos_def l_def Let_def)
  with x show ?thesis by (simp add: round_to_def x_def)
qed

lemma round_to_int_exact:
  assumes "1 \<le> p" "0 \<le> m" "m < 2 ^ p" "emin \<le> 0"
  shows "round_to p emin (of_int m) = of_int m"
  using round_to_exact [OF assms] by simp

lemma f64_of_rat_mono: "0 \<le> x \<Longrightarrow> x \<le> y \<Longrightarrow> f64_of_rat x \<le> f64_of_rat y"
  by (simp add: f64_of_rat_def round_to_mono)

lemma f64_of_rat_zero [simp]: "f64_of_rat 0 = 0"
  by (simp add: f64_of_rat_def round_to_def)

lemma f64_of_rat_nonneg: "0 \<le> x \<Longrightarrow> 0 \<le> f64_of_rat x"
  using f64_of_rat_mono [of 0 x] by simp

lemma f64_of_nat_exact: "n < 2 ^ 53 \<Longrightarrow> f64_of_rat (of_nat n) = of_nat n"
proof -
  assume "n < 2 ^ 53"
  then have "int n < 2 ^ 53" by simp
  from round_to_int_exact [of 53 "int n" "-1074"] this show ?thesis
    by (simp add: f64_of_rat_def)
qed

end
