(* ===== verification/Rtb_Text.thy ===== *)
theory Rtb_Text
  imports Rtb_Prelude Rtb_Float "HOL-Library.Char_ord"
begin

text \<open>
  The text conversions of the C++ standard library that the sources call: \<open>std::to_string\<close>
  and \<open>std::from_chars\<close> in base ten, and the extraction of a \<open>double\<close> from a
  \<open>std::stringstream\<close> in the classic locale (\<open>operator>>\<close> of libstdc++). On top of them the
  number parsers of \<open>src/campaign_store.cc\<close> and \<open>src/server.cc\<close>.
\<close>

section \<open>Digits\<close>

definition is_digit :: "char \<Rightarrow> bool" where
  "is_digit c \<longleftrightarrow> 48 \<le> (of_char c :: nat) \<and> (of_char c :: nat) \<le> 57"

definition digit_value :: "char \<Rightarrow> nat" where
  "digit_value c = of_char c - 48"

definition digit_char :: "nat \<Rightarrow> char" where
  "digit_char d = char_of (48 + d)"

definition digits_value :: "string \<Rightarrow> nat" where
  "digits_value s = foldl (\<lambda>a c. 10 * a + digit_value c) 0 s"

text \<open>\<open>std::to_string\<close> of an unsigned integer.\<close>

fun nat_to_string :: "nat \<Rightarrow> string" where
  "nat_to_string n =
    (if n < 10 then [digit_char n] else nat_to_string (n div 10) @ [digit_char (n mod 10)])"

declare nat_to_string.simps [simp del]

definition to_string :: "u64 \<Rightarrow> string" where
  "to_string w = nat_to_string (unat w)"

section \<open>from_chars\<close>

text \<open>
  The result of \<open>std::from_chars\<close>: the error code, the number of characters up to \<open>ptr\<close>,
  and the value it stores, which it does on success only.
\<close>

datatype errc = EC_ok | EC_invalid_argument | EC_result_out_of_range

definition from_chars_u64 :: "string \<Rightarrow> errc \<times> nat \<times> u64 option" where
  "from_chars_u64 s =
    (let ds = takeWhile is_digit s in
     if ds = [] then (EC_invalid_argument, 0, None)
     else if 2 ^ 64 \<le> digits_value ds then (EC_result_out_of_range, length ds, None)
     else (EC_ok, length ds, Some (word_of_nat (digits_value ds))))"

text \<open>For the signed \<open>int\<close>: one minus sign is accepted, a plus sign is not.\<close>

definition from_chars_int :: "string \<Rightarrow> errc \<times> nat \<times> int option" where
  "from_chars_int s =
    (let neg = (s \<noteq> [] \<and> hd s = CHR ''-'');
         body = (if neg then tl s else s);
         ds = takeWhile is_digit body;
         n = (if neg then 1 else 0) + length ds;
         v = (if neg then - int (digits_value ds) else int (digits_value ds)) in
     if ds = [] then (EC_invalid_argument, 0, None)
     else if v < - (2 ^ 31) \<or> 2 ^ 31 \<le> v then (EC_result_out_of_range, n, None)
     else (EC_ok, n, Some v))"

text \<open>
  The parsers that demand the whole text: \<open>parse_u64\<close> of \<open>src/campaign_store.cc\<close>,
  \<open>parse_u64_arg\<close>, \<open>parse_int_arg\<close> and \<open>parse_port_arg\<close> of \<open>src/server.cc\<close>. \<open>None\<close> is
  the result \<open>false\<close>.
\<close>

definition parse_u64 :: "string \<Rightarrow> u64 option" where
  "parse_u64 value =
    (let (ec, ptr, out) = from_chars_u64 value
     in if ec = EC_ok \<and> ptr = length value then out else None)"

definition parse_u64_arg :: "string \<Rightarrow> u64 option" where
  "parse_u64_arg txt =
    (let (ec, ptr, out) = from_chars_u64 txt
     in if ec \<noteq> EC_ok \<or> ptr \<noteq> length txt then None else out)"

definition parse_int_arg :: "string \<Rightarrow> int option" where
  "parse_int_arg txt =
    (let (ec, ptr, out) = from_chars_int txt
     in if ec \<noteq> EC_ok \<or> ptr \<noteq> length txt then None else out)"

definition parse_port_arg :: "string \<Rightarrow> u16 option" where
  "parse_port_arg txt =
    (case parse_int_arg txt of
       None \<Rightarrow> None
     | Some value \<Rightarrow> if value \<le> 0 \<or> 65535 < value then None else Some (word_of_int value))"

section \<open>Extraction of a double\<close>

definition is_space :: "char \<Rightarrow> bool" where
  "is_space c \<longleftrightarrow> c = CHR '' '' \<or> (9 \<le> (of_char c :: nat) \<and> (of_char c :: nat) \<le> 13)"

text \<open>
  The parts of a decimal number in the order the extraction accumulates them: sign, integral
  digits, fraction digits, exponent (\<open>None\<close> without a digit after the exponent mark: then
  the conversion fails), rest of the text.
\<close>

definition scan_sign :: "string \<Rightarrow> bool \<times> string" where
  "scan_sign s =
    (case s of
       c # cs \<Rightarrow> if c = CHR ''-'' then (True, cs) else if c = CHR ''+'' then (False, cs) else (False, s)
     | [] \<Rightarrow> (False, s))"

definition scan_fraction :: "string \<Rightarrow> string \<times> string" where
  "scan_fraction s =
    (case s of
       c # cs \<Rightarrow> if c = CHR ''.'' then (takeWhile is_digit cs, dropWhile is_digit cs) else ([], s)
     | [] \<Rightarrow> ([], s))"

definition scan_exponent :: "string \<Rightarrow> int option \<times> string" where
  "scan_exponent s =
    (case s of
       c # cs \<Rightarrow>
         if c = CHR ''e'' \<or> c = CHR ''E'' then
           let (neg, ds) = scan_sign cs;
               e = takeWhile is_digit ds in
           if e = [] then (None, ds)
           else (Some (if neg then - int (digits_value e) else int (digits_value e)),
                 dropWhile is_digit ds)
         else (Some 0, s)
     | [] \<Rightarrow> (Some 0, s))"

text \<open>
  \<open>stream >> out\<close> succeeds and leaves nothing unread. The value is the correctly rounded
  one; a magnitude beyond the largest finite \<open>double\<close> sets \<open>failbit\<close>.
\<close>

definition parse_double_value :: "string \<Rightarrow> f64 option" where
  "parse_double_value value =
    (let (neg, s1) = scan_sign (dropWhile is_space value);
         ip = takeWhile is_digit s1;
         (fp, s2) = scan_fraction (dropWhile is_digit s1) in
     if ip = [] \<and> fp = [] then None
     else
       let (e, rest) = scan_exponent s2 in
       case e of
         None \<Rightarrow> None
       | Some e \<Rightarrow>
           let v = f64_of_rat (of_nat (digits_value (ip @ fp)) * 10 powi (e - int (length fp))) in
           if f64_max < v \<or> rest \<noteq> [] then None else Some (if neg then - v else v))"

definition parse_bool_value :: "string \<Rightarrow> bool option" where
  "parse_bool_value value =
    (if value = ''1'' \<or> value = ''true'' \<or> value = ''TRUE'' then Some True
     else if value = ''0'' \<or> value = ''false'' \<or> value = ''FALSE'' then Some False
     else None)"

section \<open>Lemmas: printing and parsing decimals\<close>

lemma digit_char_props:
  assumes "d < 10"
  shows "is_digit (digit_char d)" "digit_value (digit_char d) = d"
proof -
  have "(of_char (char_of (48 + d)) :: nat) = 48 + d"
    using assms by simp
  then show "is_digit (digit_char d)" "digit_value (digit_char d) = d"
    using assms by (auto simp: is_digit_def digit_value_def digit_char_def)
qed

lemma digits_value_snoc: "digits_value (s @ [c]) = 10 * digits_value s + digit_value c"
  by (simp add: digits_value_def)

lemma nat_to_string_digits: "\<forall>c \<in> set (nat_to_string n). is_digit c"
proof (induction n rule: nat_to_string.induct)
  case (1 n)
  then show ?case
    by (subst nat_to_string.simps) (auto simp: digit_char_props)
qed

lemma nat_to_string_nonempty: "nat_to_string n \<noteq> []"
  by (subst nat_to_string.simps) simp

lemma digits_value_nat_to_string: "digits_value (nat_to_string n) = n"
proof (induction n rule: nat_to_string.induct)
  case (1 n)
  show ?case
  proof (cases "n < 10")
    case True
    then show ?thesis
      by (subst nat_to_string.simps) (simp add: digits_value_def digit_char_props)
  next
    case False
    then show ?thesis
      using 1 by (subst nat_to_string.simps) (simp add: digits_value_snoc digit_char_props)
  qed
qed

lemma takeWhile_all: "\<forall>c \<in> set s. P c \<Longrightarrow> takeWhile P s = s"
  by (simp add: takeWhile_eq_all_conv)

text \<open>What a whole-text parser accepts: one or more digits whose value fits.\<close>

definition decimal_u64 :: "string \<Rightarrow> u64 option" where
  "decimal_u64 s =
    (if s \<noteq> [] \<and> (\<forall>c \<in> set s. is_digit c) \<and> digits_value s < 2 ^ 64
     then Some (word_of_nat (digits_value s)) else None)"

lemma takeWhile_length_eq: "length (takeWhile P s) = length s \<longleftrightarrow> (\<forall>c \<in> set s. P c)"
  by (metis length_takeWhile_le takeWhile_all takeWhile_eq_all_conv takeWhile_eq_take take_all_iff)

lemma parse_u64_decimal [spec_simps]: "parse_u64 s = decimal_u64 s"
  by (auto simp: parse_u64_def from_chars_u64_def decimal_u64_def Let_def takeWhile_length_eq
      takeWhile_all)

lemma parse_u64_arg_decimal [spec_simps]: "parse_u64_arg s = decimal_u64 s"
  by (auto simp: parse_u64_arg_def from_chars_u64_def decimal_u64_def Let_def
      takeWhile_length_eq takeWhile_all)

lemma parse_to_string: "parse_u64 (to_string w) = Some w"
  using unsigned_less [of w]
  by (simp add: parse_u64_decimal decimal_u64_def to_string_def nat_to_string_digits
      nat_to_string_nonempty digits_value_nat_to_string)

lemma to_string_inj: "to_string v = to_string w \<longleftrightarrow> v = w"
  by (metis option.inject parse_to_string)

lemma parse_int_arg_range: "parse_int_arg s = Some v \<Longrightarrow> - (2 ^ 31) \<le> v \<and> v < 2 ^ 31"
  by (auto simp: parse_int_arg_def from_chars_int_def Let_def split: if_splits prod.splits)

lemma parse_port_arg_Some:
  "parse_port_arg s = Some p \<longleftrightarrow>
    (\<exists>v. parse_int_arg s = Some v \<and> 0 < v \<and> v \<le> 65535 \<and> p = word_of_int v)"
  by (auto simp: parse_port_arg_def not_le split: option.splits if_splits)

lemma parse_port_arg_range:
  assumes "parse_port_arg s = Some p"
  shows "p \<noteq> 0"
proof -
  from assms obtain v where v: "0 < v" "v \<le> 65535" "p = word_of_int v"
    unfolding parse_port_arg_Some by blast
  then have "uint p = v" by (simp add: uint_word_of_int)
  then show ?thesis using v by auto
qed

section \<open>Properties\<close>

text \<open>
  C38. Numbers survive being written and read back, and the reader accepts exactly the
  nonempty digit strings whose value fits 64 bits.
\<close>

theorem number_roundtrip:
  "parse_u64 (to_string w) = Some w \<and>
    (parse_u64 s = Some w \<longleftrightarrow> s \<noteq> [] \<and> list_all is_digit s \<and> digits_value s = unat w)"
proof -
  have "parse_u64 s = Some w \<longleftrightarrow> s \<noteq> [] \<and> list_all is_digit s \<and> digits_value s = unat w"
    using unsigned_less [of w]
    by (auto simp: parse_u64_decimal decimal_u64_def list_all_iff unat_of_nat take_bit_nat_eq_self)
  then show ?thesis using parse_to_string by blast
qed

end
