(* ===== verification/Rtb_Server_Config.thy ===== *)
theory Rtb_Server_Config
  imports Rtb_Text
begin

text \<open>
  The command line: \<open>ServerConfig\<close> and \<open>ParseServerConfigStatus\<close> of \<open>include/rtb/server.h\<close>,
  \<open>parse_server_config\<close> and \<open>default_campaign_data_path\<close> of \<open>src/server.cc\<close>. The directory the
  build bakes in is a parameter. The specification reads a command line as a list of options,
  each with a meaning as an update of the configuration, and a canonical way of writing it.
\<close>

section \<open>The code\<close>

record ServerConfig =
  sc_port :: u16
  sc_workers :: int
  sc_benchmark :: bool
  sc_benchmark_requests :: u64
  sc_benchmark_duration_ms :: u64
  sc_benchmark_json_path :: string
  sc_campaign_data_path :: string

definition empty_ServerConfig :: ServerConfig where
  "empty_ServerConfig =
    \<lparr>sc_port = 8080, sc_workers = 1, sc_benchmark = False, sc_benchmark_requests = 0,
     sc_benchmark_duration_ms = 0, sc_benchmark_json_path = '''', sc_campaign_data_path = ''''\<rparr>"

datatype ParseServerConfigStatus = SC_Ok | SC_HelpRequested | SC_InvalidArgument

definition default_campaign_data_path :: "string \<Rightarrow> string" where
  "default_campaign_data_path project_dir = project_dir @ ''/data/sample_campaigns.csv''"

text \<open>
  The loop over the arguments; the list holds those from \<open>index\<close> on. A parser that fails
  leaves its target as it was; \<open>--workers\<close> and the two benchmark limits store a number before
  it is found to be out of range.
\<close>

fun config_loop ::
  "ServerConfig \<Rightarrow> string list \<Rightarrow> ParseServerConfigStatus \<times> ServerConfig \<times> string" where
  "config_loop out [] = (SC_Ok, out, '''')"
| "config_loop out (arg # rest) =
    (if arg = ''--help'' then (SC_HelpRequested, out, '''')
     else if arg = ''--benchmark'' then config_loop (out\<lparr>sc_benchmark := True\<rparr>) rest
     else if arg = ''--port'' then
       (case rest of
          [] \<Rightarrow> (SC_InvalidArgument, out, ''missing value for --port'')
        | txt # rest \<Rightarrow>
            (case parse_port_arg txt of
               None \<Rightarrow> (SC_InvalidArgument, out, ''invalid value for --port'')
             | Some p \<Rightarrow> config_loop (out\<lparr>sc_port := p\<rparr>) rest))
     else if arg = ''--workers'' then
       (case rest of
          [] \<Rightarrow> (SC_InvalidArgument, out, ''missing value for --workers'')
        | txt # rest \<Rightarrow>
            (case parse_int_arg txt of
               None \<Rightarrow> (SC_InvalidArgument, out, ''invalid value for --workers'')
             | Some n \<Rightarrow>
                 let out = out\<lparr>sc_workers := n\<rparr> in
                 if sc_workers out \<le> 0
                 then (SC_InvalidArgument, out, ''invalid value for --workers'')
                 else config_loop out rest))
     else if arg = ''--campaign-data-path'' then
       (case rest of
          [] \<Rightarrow> (SC_InvalidArgument, out, ''missing value for --campaign-data-path'')
        | txt # rest \<Rightarrow> config_loop (out\<lparr>sc_campaign_data_path := txt\<rparr>) rest)
     else if arg = ''--benchmark-json'' then
       (case rest of
          [] \<Rightarrow> (SC_InvalidArgument, out, ''missing value for --benchmark-json'')
        | txt # rest \<Rightarrow>
            config_loop (out\<lparr>sc_benchmark := True, sc_benchmark_json_path := txt\<rparr>) rest)
     else if arg = ''--benchmark-requests'' then
       (case rest of
          [] \<Rightarrow> (SC_InvalidArgument, out, ''missing value for --benchmark-requests'')
        | txt # rest \<Rightarrow>
            (case parse_u64_arg txt of
               None \<Rightarrow> (SC_InvalidArgument, out, ''invalid value for --benchmark-requests'')
             | Some n \<Rightarrow>
                 let out = out\<lparr>sc_benchmark_requests := n\<rparr> in
                 if sc_benchmark_requests out = 0
                 then (SC_InvalidArgument, out, ''invalid value for --benchmark-requests'')
                 else config_loop (out\<lparr>sc_benchmark := True\<rparr>) rest))
     else if arg = ''--benchmark-duration-ms'' then
       (case rest of
          [] \<Rightarrow> (SC_InvalidArgument, out, ''missing value for --benchmark-duration-ms'')
        | txt # rest \<Rightarrow>
            (case parse_u64_arg txt of
               None \<Rightarrow> (SC_InvalidArgument, out, ''invalid value for --benchmark-duration-ms'')
             | Some n \<Rightarrow>
                 let out = out\<lparr>sc_benchmark_duration_ms := n\<rparr> in
                 if sc_benchmark_duration_ms out = 0
                 then (SC_InvalidArgument, out, ''invalid value for --benchmark-duration-ms'')
                 else config_loop (out\<lparr>sc_benchmark := True\<rparr>) rest))
     else (SC_InvalidArgument, out, ''unknown argument: '' @ arg))"

definition parse_server_config ::
  "string \<Rightarrow> string list \<Rightarrow> ParseServerConfigStatus \<times> ServerConfig \<times> string" where
  "parse_server_config project_dir args =
    config_loop
      (empty_ServerConfig\<lparr>sc_campaign_data_path := default_campaign_data_path project_dir\<rparr>) args"

section \<open>Options\<close>

datatype server_option =
    Opt_Benchmark
  | Opt_Port u16
  | Opt_Workers int
  | Opt_Path string
  | Opt_Json string
  | Opt_Requests u64
  | Opt_Duration u64

fun option_ok :: "server_option \<Rightarrow> bool" where
  "option_ok (Opt_Port p) = (p \<noteq> 0)"
| "option_ok (Opt_Workers n) = (0 < n \<and> n < 2 ^ 31)"
| "option_ok (Opt_Requests n) = (n \<noteq> 0)"
| "option_ok (Opt_Duration n) = (n \<noteq> 0)"
| "option_ok _ = True"

fun apply_option :: "server_option \<Rightarrow> ServerConfig \<Rightarrow> ServerConfig" where
  "apply_option Opt_Benchmark c = c\<lparr>sc_benchmark := True\<rparr>"
| "apply_option (Opt_Port p) c = c\<lparr>sc_port := p\<rparr>"
| "apply_option (Opt_Workers n) c = c\<lparr>sc_workers := n\<rparr>"
| "apply_option (Opt_Path s) c = c\<lparr>sc_campaign_data_path := s\<rparr>"
| "apply_option (Opt_Json s) c = c\<lparr>sc_benchmark := True, sc_benchmark_json_path := s\<rparr>"
| "apply_option (Opt_Requests n) c = c\<lparr>sc_benchmark_requests := n, sc_benchmark := True\<rparr>"
| "apply_option (Opt_Duration n) c = c\<lparr>sc_benchmark_duration_ms := n, sc_benchmark := True\<rparr>"

fun render_option :: "server_option \<Rightarrow> string list" where
  "render_option Opt_Benchmark = [''--benchmark'']"
| "render_option (Opt_Port p) = [''--port'', nat_to_string (unat p)]"
| "render_option (Opt_Workers n) = [''--workers'', nat_to_string (nat n)]"
| "render_option (Opt_Path s) = [''--campaign-data-path'', s]"
| "render_option (Opt_Json s) = [''--benchmark-json'', s]"
| "render_option (Opt_Requests n) = [''--benchmark-requests'', to_string n]"
| "render_option (Opt_Duration n) = [''--benchmark-duration-ms'', to_string n]"

definition apply_options :: "server_option list \<Rightarrow> ServerConfig \<Rightarrow> ServerConfig" where
  "apply_options = fold apply_option"

section \<open>Lemmas\<close>

lemma parse_int_arg_nat:
  assumes "n < 2 ^ 31"
  shows "parse_int_arg (nat_to_string n) = Some (int n)"
proof -
  have d: "\<forall>c \<in> set (nat_to_string n). is_digit c" by (rule nat_to_string_digits)
  then have "hd (nat_to_string n) \<noteq> CHR ''-''"
  proof -
    have "is_digit (hd (nat_to_string n))" using d nat_to_string_nonempty [of n] by simp
    moreover have "\<not> is_digit (CHR ''-'')" by (simp add: is_digit_def)
    ultimately show ?thesis by metis
  qed
  then show ?thesis
    using d assms nat_to_string_nonempty [of n]
    by (simp add: parse_int_arg_def from_chars_int_def Let_def takeWhile_all
        digits_value_nat_to_string)
qed


lemma parse_port_arg_nat:
  fixes p :: u16
  assumes "p \<noteq> 0"
  shows "parse_port_arg (nat_to_string (unat p)) = Some p"
proof -
  have le: "unat p < 65536" using unsigned_less [of p] by simp
  moreover have "unat p \<noteq> 0" using assms by (simp add: unat_eq_0)
  moreover have "parse_int_arg (nat_to_string (unat p)) = Some (int (unat p))"
    using le by (intro parse_int_arg_nat) simp
  ultimately have "parse_int_arg (nat_to_string (unat p)) = Some (int (unat p))"
      "\<not> int (unat p) \<le> 0" "\<not> 65535 < int (unat p)" by linarith+
  then show ?thesis
    by (simp only: parse_port_arg_def option.case if_False de_Morgan_disj) simp
qed

declare config_loop.simps(2) [simp del]

lemma config_loop_option:
  assumes "option_ok opt"
  shows "config_loop out (render_option opt @ rest) = config_loop (apply_option opt out) rest"
proof (cases opt)
  case (Opt_Port p)
  then show ?thesis using assms parse_port_arg_nat by (simp add: config_loop.simps(2))
next
  case (Opt_Workers n)
  then have n: "0 < n" "n < 2 ^ 31" using assms by simp_all
  then have "parse_int_arg (nat_to_string (nat n)) = Some n" using parse_int_arg_nat [of "nat n"] by simp
  with Opt_Workers n show ?thesis by (simp add: config_loop.simps(2))
next
  case (Opt_Requests n)
  then show ?thesis
    using assms parse_to_string [of n] by (simp add: config_loop.simps(2) parse_u64_arg_decimal parse_u64_decimal)
next
  case (Opt_Duration n)
  then show ?thesis
    using assms parse_to_string [of n] by (simp add: config_loop.simps(2) parse_u64_arg_decimal parse_u64_decimal)
qed (simp_all add: config_loop.simps(2))

lemma config_loop_render:
  "\<forall>opt \<in> set opts. option_ok opt \<Longrightarrow>
    config_loop out (concat (map render_option opts) @ rest) = config_loop (apply_options opts out) rest"
  by (induction opts arbitrary: out) (simp_all add: config_loop_option apply_options_def)

text \<open>The other direction: what is accepted is a sequence of options.\<close>

lemma config_loop_cases:
  assumes "config_loop out (arg # rest) = (SC_Ok, c, err)"
  shows "\<exists>opt rest'. option_ok opt \<and> config_loop (apply_option opt out) rest' = (SC_Ok, c, err) \<and>
    length rest' \<le> length rest"
proof (cases rest)
  case Nil
  then show ?thesis
    using assms
    by (auto simp: config_loop.simps(2) split: if_splits intro!: exI [of _ Opt_Benchmark])
next
  case (Cons val rest')
  consider "arg = ''--benchmark''" | "arg = ''--port''" | "arg = ''--workers''"
    | "arg = ''--campaign-data-path''" | "arg = ''--benchmark-json''"
    | "arg = ''--benchmark-requests''" | "arg = ''--benchmark-duration-ms''"
    using assms by (auto simp: config_loop.simps(2) split: if_splits)
  then obtain opt rest'' where "option_ok opt" "rest'' = rest \<or> rest'' = rest'"
    "config_loop (apply_option opt out) rest'' = (SC_Ok, c, err)"
  proof cases
    case 1 then show ?thesis using assms that [of Opt_Benchmark rest] by (simp add: config_loop.simps(2))
  next
    case 2
    then obtain p where "parse_port_arg val = Some p" "config_loop (out\<lparr>sc_port := p\<rparr>) rest' = (SC_Ok, c, err)"
      using assms Cons by (auto simp: config_loop.simps(2) split: option.splits)
    then show ?thesis using that [of "Opt_Port p" rest'] parse_port_arg_range by simp
  next
    case 3
    then obtain n where "parse_int_arg val = Some n" "0 < n"
      "config_loop (out\<lparr>sc_workers := n\<rparr>) rest' = (SC_Ok, c, err)"
      using assms Cons by (auto simp: config_loop.simps(2) Let_def split: option.splits if_splits)
    then show ?thesis using that [of "Opt_Workers n" rest'] parse_int_arg_range [of val n] by simp
  next
    case 4 then show ?thesis using assms Cons that [of "Opt_Path val" rest'] by (simp add: config_loop.simps(2))
  next
    case 5 then show ?thesis using assms Cons that [of "Opt_Json val" rest'] by (simp add: config_loop.simps(2))
  next
    case 6
    then obtain n where "n \<noteq> 0"
      "config_loop (out\<lparr>sc_benchmark_requests := n, sc_benchmark := True\<rparr>) rest' = (SC_Ok, c, err)"
      using assms Cons by (auto simp: config_loop.simps(2) Let_def split: option.splits if_splits)
    then show ?thesis using that [of "Opt_Requests n" rest'] by simp
  next
    case 7
    then obtain n where "n \<noteq> 0"
      "config_loop (out\<lparr>sc_benchmark_duration_ms := n, sc_benchmark := True\<rparr>) rest' = (SC_Ok, c, err)"
      using assms Cons by (auto simp: config_loop.simps(2) Let_def split: option.splits if_splits)
    then show ?thesis using that [of "Opt_Duration n" rest'] by simp
  qed
  then show ?thesis using Cons by fastforce
qed

lemma config_loop_ok:
  assumes "config_loop out args = (SC_Ok, c, err)"
  shows "\<exists>opts. (\<forall>opt \<in> set opts. option_ok opt) \<and> c = apply_options opts out \<and> err = ''''"
  using assms
proof (induction "length args" arbitrary: args out rule: less_induct)
  case less
  show ?case
  proof (cases args)
    case Nil
    then show ?thesis using less(2) by (intro exI [of _ "[]"]) (simp add: apply_options_def)
  next
    case (Cons arg rest)
    obtain opt rest' where o: "option_ok opt" "config_loop (apply_option opt out) rest' = (SC_Ok, c, err)"
      "length rest' < length args"
      using config_loop_cases less(2) Cons by fastforce
    obtain opts where "\<forall>opt \<in> set opts. option_ok opt" "c = apply_options opts (apply_option opt out)"
      "err = ''''" using less(1) [OF o(3,2)] by blast
    then show ?thesis using o(1) by (intro exI [of _ "opt # opts"]) (simp add: apply_options_def)
  qed
qed

text \<open>What every configuration built from options has in common.\<close>

definition config_sound :: "ServerConfig \<Rightarrow> bool" where
  "config_sound c \<longleftrightarrow>
    sc_port c \<noteq> 0 \<and> 0 < sc_workers c \<and> sc_workers c < 2 ^ 31 \<and>
    (\<not> sc_benchmark c \<longrightarrow> sc_benchmark_requests c = 0 \<and> sc_benchmark_duration_ms c = 0 \<and>
      sc_benchmark_json_path c = '''')"

lemma apply_options_sound:
  "\<forall>opt \<in> set opts. option_ok opt \<Longrightarrow> config_sound c \<Longrightarrow> config_sound (apply_options opts c)"
proof (induction opts arbitrary: c)
  case (Cons opt opts)
  have "config_sound (apply_option opt c)"
    using Cons.prems by (cases opt) (auto simp: config_sound_def)
  then show ?case using Cons by (simp add: apply_options_def)
qed (simp add: apply_options_def)

lemma default_config_sound: "config_sound (empty_ServerConfig\<lparr>sc_campaign_data_path := s\<rparr>)"
  by (simp add: config_sound_def empty_ServerConfig_def)

section \<open>Properties\<close>

text \<open>
  C35. Every list of permitted options, written as a command line, is read back as exactly
  those options applied to the defaults in order.
\<close>

theorem command_line_roundtrip:
  assumes "list_all option_ok opts"
  shows "parse_server_config dir (concat (map render_option opts)) =
    (SC_Ok, apply_options opts
      (empty_ServerConfig\<lparr>sc_campaign_data_path := default_campaign_data_path dir\<rparr>), [])"
  using config_loop_render [of opts _ "[]"] assms
  by (simp add: parse_server_config_def list_all_iff)

theorem command_line_roundtrip_witness:
  "fst (parse_server_config ''.'' [''--port'', ''9090'', ''--benchmark-requests'', ''100'', ''--benchmark'']) =
    SC_Ok"
proof -
  have ok: "list_all option_ok [Opt_Port 9090, Opt_Requests 100, Opt_Benchmark]" by simp
  have "digit_char 0 = CHR ''0''" "digit_char (Suc 0) = CHR ''1''" "digit_char 9 = CHR ''9''" by code_simp+
  then have "nat_to_string 9090 = ''9090''" "nat_to_string 100 = ''100''"
    by (simp_all add: nat_to_string.simps)
  then have "concat (map render_option [Opt_Port 9090, Opt_Requests 100, Opt_Benchmark]) =
      [''--port'', ''9090'', ''--benchmark-requests'', ''100'', ''--benchmark'']"
    by (simp add: to_string_def)
  with command_line_roundtrip [OF ok, of "''.''"] show ?thesis by simp
qed

text \<open>
  C36. An accepted command line yields a configuration the server can run: a nonzero port, at
  least one worker, and benchmark settings only with the benchmark switched on; there is then
  no error text.
\<close>

theorem accepted_configuration_sound:
  assumes "parse_server_config dir args = (SC_Ok, c, err)"
  shows "sc_port c \<noteq> 0 \<and> 0 < sc_workers c \<and> sc_workers c < 2 ^ 31 \<and> err = [] \<and>
    (if sc_benchmark c then True
     else sc_benchmark_requests c = 0 \<and> sc_benchmark_duration_ms c = 0 \<and> sc_benchmark_json_path c = [])"
proof -
  obtain opts where o: "\<forall>opt \<in> set opts. option_ok opt" "err = []"
    "c = apply_options opts (empty_ServerConfig\<lparr>sc_campaign_data_path := default_campaign_data_path dir\<rparr>)"
    using config_loop_ok assms unfolding parse_server_config_def by blast
  then have "config_sound c" using apply_options_sound default_config_sound by blast
  then show ?thesis using o(2) by (auto simp: config_sound_def)
qed

theorem accepted_configuration_sound_witness:
  "\<exists>c. parse_server_config ''.'' [''--benchmark''] = (SC_Ok, c, []) \<and> sc_port c \<noteq> 0"
proof -
  obtain c where c: "parse_server_config ''.'' [''--benchmark''] = (SC_Ok, c, [])"
    by (simp add: parse_server_config_def config_loop.simps(2))
  with accepted_configuration_sound [OF c] show ?thesis by blast
qed

end
