(* ===== verification/Rtb_Types.thy ===== *)
theory Rtb_Types
  imports Rtb_Prelude Rtb_Float
begin

text \<open>
  The data model of \<open>include/rtb/engine_types.h\<close>, \<open>include/rtb/constants.h\<close> and
  \<open>include/rtb/config.h\<close>, together with the two message types of \<open>proto/rtb.proto\<close>.

  Enumerations are datatypes, structs are records whose fields carry a short prefix (two
  structs share many field names). A key struct that only wraps an integer is that integer.
  A \<open>double\<close> is its rational value (theory \<open>Rtb_Float\<close>), a pointer that may be null is an
  \<open>option\<close>, a \<open>std::span\<close> over immutable records is the list of the records it shows.
\<close>

section \<open>Enumerations and keys\<close>

datatype AuctionType = AT_Unspecified | AT_FirstPrice | AT_SecondPrice

datatype DeviceTypeKey = DT_Unknown | DT_Desktop | DT_Mobile | DT_Tablet | DT_ConnectedTv

datatype NoBidReason =
    NB_None
  | NB_InvalidRequest
  | NB_DeadlineExceeded
  | NB_NoEligibleCampaign
  | NB_NoEligibleCreative
  | NB_Filtered

datatype RequestProcessingStatus = RP_Ok | RP_Invalid | RP_Expired

type_synonym CountryKey = u16
type_synonym AdSlotKey = u32

section \<open>Requests\<close>

record ParsedMessage =
  pm_request_id :: string
  pm_tmax_ms :: u32
  pm_country :: string
  pm_device_type :: string
  pm_ad_slot :: string
  pm_auction_type :: AuctionType
  pm_processing_status :: RequestProcessingStatus

definition empty_ParsedMessage :: ParsedMessage where
  "empty_ParsedMessage =
    \<lparr>pm_request_id = '''', pm_tmax_ms = 0, pm_country = '''', pm_device_type = '''',
     pm_ad_slot = '''', pm_auction_type = AT_Unspecified, pm_processing_status = RP_Ok\<rparr>"

record RequestContext =
  rc_request_id :: string
  rc_country_key :: CountryKey
  rc_device_type_key :: DeviceTypeKey
  rc_ad_slot_key :: AdSlotKey
  rc_auction_type :: AuctionType
  rc_received_at_ns :: u64
  rc_deadline_ns :: u64
  rc_processing_status :: RequestProcessingStatus
  rc_no_bid_reason :: NoBidReason

definition is_eligible :: "RequestContext \<Rightarrow> bool" where
  "is_eligible rc \<longleftrightarrow> rc_processing_status rc = RP_Ok \<and> rc_no_bid_reason rc = NB_None"

section \<open>Campaigns\<close>

record CampaignRecord =
  cr_campaign_id :: u64
  cr_country_key :: CountryKey
  cr_device_type_key :: DeviceTypeKey
  cr_ad_slot_key :: AdSlotKey
  cr_value_per_action :: f64
  cr_aggressiveness :: f64
  cr_creative_offset :: u32
  cr_creative_count :: u32
  cr_active :: bool

record CreativeRecord =
  cv_creative_id :: u64
  cv_ad_slot_key :: AdSlotKey

text \<open>The two \<open>unordered_map\<close>s are partial functions from keys to vectors of indices.\<close>

record CampaignStoreSnapshot =
  cs_campaigns :: "CampaignRecord list"
  cs_creatives :: "CreativeRecord list"
  cs_by_country :: "CountryKey \<rightharpoonup> u32 list"
  cs_by_ad_slot :: "AdSlotKey \<rightharpoonup> u32 list"

definition empty_store :: CampaignStoreSnapshot where
  "empty_store =
    \<lparr>cs_campaigns = [], cs_creatives = [], cs_by_country = Map.empty, cs_by_ad_slot = Map.empty\<rparr>"

record CampaignView =
  vw_campaign :: "CampaignRecord option"
  vw_creatives :: "CreativeRecord list"

definition valid :: "CampaignView \<Rightarrow> bool" where
  "valid v \<longleftrightarrow> vw_campaign v \<noteq> None"

section \<open>Decisions\<close>

record BidDecision =
  bd_has_bid :: bool
  bd_no_bid_reason :: NoBidReason
  bd_campaign_id :: u64
  bd_creative_id :: u64
  bd_model_score :: f64
  bd_bid_price :: f64

text \<open>A decision whose designated initialiser sets the first two members only.\<close>

definition no_bid :: "NoBidReason \<Rightarrow> BidDecision" where
  "no_bid r =
    \<lparr>bd_has_bid = False, bd_no_bid_reason = r, bd_campaign_id = 0, bd_creative_id = 0,
     bd_model_score = 0, bd_bid_price = 0\<rparr>"

section \<open>Wire messages\<close>

text \<open>
  The messages \<open>BidRequest\<close> and \<open>BidResponse\<close> of \<open>proto/rtb.proto\<close>. In proto3 an enum is
  open: \<open>auction_type\<close> may hold any 32 bit number. How a message is written as bytes is
  decided by the protobuf library, which is a parameter of the theories that use it.
\<close>

record BidRequest =
  rq_request_id :: string
  rq_tmax_ms :: u32
  rq_country :: string
  rq_device_type :: string
  rq_ad_slot :: string
  rq_auction_type :: u32

datatype BidStatus = BID_STATUS_UNSPECIFIED | BID_STATUS_NO_BID | BID_STATUS_BID

record BidResponse =
  rs_request_id :: string
  rs_status :: BidStatus
  rs_campaign_id :: string
  rs_creative_id :: string
  rs_price :: f64

definition AUCTION_TYPE_FIRST_PRICE :: u32 where "AUCTION_TYPE_FIRST_PRICE = 1"
definition AUCTION_TYPE_SECOND_PRICE :: u32 where "AUCTION_TYPE_SECOND_PRICE = 2"

definition empty_BidRequest :: BidRequest where
  "empty_BidRequest =
    \<lparr>rq_request_id = '''', rq_tmax_ms = 0, rq_country = '''', rq_device_type = '''',
     rq_ad_slot = '''', rq_auction_type = 0\<rparr>"

definition empty_BidResponse :: BidResponse where
  "empty_BidResponse =
    \<lparr>rs_request_id = '''', rs_status = BID_STATUS_UNSPECIFIED, rs_campaign_id = '''',
     rs_creative_id = '''', rs_price = 0\<rparr>"

section \<open>Configuration constants\<close>

definition kResponseSafetyMarginNs :: u64 where "kResponseSafetyMarginNs = 1000000"
definition kNsPerMs :: u64 where "kNsPerMs = 1000000"
definition kDefaultRngSeed :: u64 where "kDefaultRngSeed = 0x9E3779B97F4A7C15"
definition kMaxOutboundFrameSize :: u32 where "kMaxOutboundFrameSize = 64 * 1024"
definition kMinBidPrice :: f64 where "kMinBidPrice = f64_of_rat (5 / 100)"
definition kMaxBidPrice :: f64 where "kMaxBidPrice = f64_of_rat (500 / 100)"

definition DESKTOP :: string where "DESKTOP = ''desktop''"
definition MOBILE :: string where "MOBILE = ''mobile''"
definition TABLET :: string where "TABLET = ''tablet''"
definition CTV :: string where "CTV = ''ctv''"
definition CONNECTED_TV :: string where "CONNECTED_TV = ''connected_tv''"

definition is_connected_tv :: "string \<Rightarrow> bool" where
  "is_connected_tv device_type \<longleftrightarrow> device_type = CTV \<or> device_type = CONNECTED_TV"

definition kCsvDelimiter :: char where "kCsvDelimiter = CHR '',''"
definition kCreativeDelimiter :: char where "kCreativeDelimiter = CHR ''|''"

lemma is_eligible_iff [simp]:
  "is_eligible rc \<longleftrightarrow> rc_processing_status rc = RP_Ok \<and> rc_no_bid_reason rc = NB_None"
  by (simp add: is_eligible_def)

end
