(* ===== verification/Rtb_Normalize.thy ===== *)
theory Rtb_Normalize
  imports Rtb_Types
begin

text \<open>
  Normalisation of the request fields to keys and deadlines: \<open>src/normalize.cc\<close>. The lemmas
  say which countries share a key and when the key is zero, that one differing character is
  always seen by the ad slot hash, and that the deadline arithmetic does not wrap for the
  clock values a host can show.
\<close>

section \<open>Keys\<close>

definition byte_of :: "char \<Rightarrow> u8" where
  "byte_of c = of_char c"

definition to_upper_ascii :: "u8 \<Rightarrow> u8" where
  "to_upper_ascii character =
    (if character \<ge> of_char CHR ''a'' \<and> character \<le> of_char CHR ''z''
     then character - 32 else character)"

definition normalize_country_key :: "string \<Rightarrow> CountryKey" where
  "normalize_country_key country =
    (if length country \<noteq> 2 then 0
     else
       let first = to_upper_ascii (byte_of (country ! 0));
           second = to_upper_ascii (byte_of (country ! 1))
       in push_bit 8 (ucast first) OR ucast second)"

definition normalize_device_type_key :: "string \<Rightarrow> DeviceTypeKey" where
  "normalize_device_type_key device_type =
    (if device_type = DESKTOP then DT_Desktop
     else if device_type = MOBILE then DT_Mobile
     else if device_type = TABLET then DT_Tablet
     else if is_connected_tv device_type then DT_ConnectedTv
     else DT_Unknown)"

text \<open>32 bit FNV-1a.\<close>

definition hash_step :: "u32 \<Rightarrow> char \<Rightarrow> u32" where
  "hash_step value character = (value XOR ucast (byte_of character)) * 16777619"

definition normalize_ad_slot_key :: "string \<Rightarrow> AdSlotKey" where
  "normalize_ad_slot_key ad_slot = foldl hash_step 2166136261 ad_slot"

section \<open>Deadlines\<close>

definition compute_deadline_ns :: "u64 \<Rightarrow> u32 \<Rightarrow> u64" where
  "compute_deadline_ns received_at_ns tmax_ms =
    (let raw_budget_ns = ucast tmax_ms * kNsPerMs in
     if raw_budget_ns \<le> kResponseSafetyMarginNs then received_at_ns
     else received_at_ns + (raw_budget_ns - kResponseSafetyMarginNs))"

definition build_request_context :: "ParsedMessage \<Rightarrow> u64 \<Rightarrow> RequestContext" where
  "build_request_context pm received_at_ns =
    (let context =
       \<lparr>rc_request_id = pm_request_id pm,
        rc_country_key = normalize_country_key (pm_country pm),
        rc_device_type_key = normalize_device_type_key (pm_device_type pm),
        rc_ad_slot_key = normalize_ad_slot_key (pm_ad_slot pm),
        rc_auction_type = pm_auction_type pm,
        rc_received_at_ns = received_at_ns,
        rc_deadline_ns = compute_deadline_ns received_at_ns (pm_tmax_ms pm),
        rc_processing_status = pm_processing_status pm,
        rc_no_bid_reason = NB_None\<rparr> in
     if rc_deadline_ns context \<le> rc_received_at_ns context
     then context\<lparr>rc_processing_status := RP_Expired, rc_no_bid_reason := NB_DeadlineExceeded\<rparr>
     else context)"

section \<open>Lemmas: countries\<close>

lemma unat_byte_of: "unat (byte_of c) = of_char c"
proof -
  have "(of_char c :: nat) < 256" by (metis of_char_mod_256 mod_less_divisor zero_less_numeral)
  moreover have "byte_of c = word_of_nat (of_char c)" by (simp add: byte_of_def of_nat_of_char)
  ultimately show ?thesis by (simp add: unat_of_nat take_bit_eq_mod)
qed

lemma char_of_byte: "char_of (unat (byte_of c)) = c"
  by (simp add: unat_byte_of)

lemma byte_of_inj [simp]: "byte_of c = byte_of d \<longleftrightarrow> c = d"
  by (metis char_of_byte)

lemma cat_bytes_eq:
  fixes a b c d :: u8
  shows "push_bit 8 (ucast a) OR ucast b = (push_bit 8 (ucast c) OR ucast d :: u16) \<longleftrightarrow> a = c \<and> b = d"
    (is "?l = ?r \<longleftrightarrow> _")
proof
  assume eq: "?l = ?r"
  have "bit a n = bit c n \<and> bit b n = bit d n" if "n < 8" for n
    using that arg_cong [OF eq, of "\<lambda>w. bit w n"] arg_cong [OF eq, of "\<lambda>w. bit w (8 + n)"]
    by (auto simp: bit_simps dest: bit_imp_le_length)
  then show "a = c \<and> b = d" by (auto intro: bit_word_eqI)
qed simp

text \<open>
  Equality of letters up to case, by the two alphabets written out: two characters are the
  same letter when they are equal or stand at the same place of the lower-case and the
  upper-case alphabet.
\<close>

definition letter_cases :: "(char \<times> char) list" where
  "letter_cases = zip ''abcdefghijklmnopqrstuvwxyz'' ''ABCDEFGHIJKLMNOPQRSTUVWXYZ''"

definition same_letter :: "char \<Rightarrow> char \<Rightarrow> bool" where
  "same_letter c d \<longleftrightarrow> c = d \<or> (c, d) \<in> set letter_cases \<or> (d, c) \<in> set letter_cases"

definition upper_case :: "char \<Rightarrow> char" where
  "upper_case c = (case map_of letter_cases c of None \<Rightarrow> c | Some u \<Rightarrow> u)"

lemma to_upper_ascii_char: "to_upper_ascii (byte_of c) = byte_of (upper_case c)"
proof -
  have "list_all (\<lambda>c. to_upper_ascii (byte_of c) = byte_of (upper_case c)) Enum.enum" by code_simp
  then show ?thesis by (simp add: list_all_iff enum_UNIV)
qed

lemma letter_cases_distinct:
  "distinct (map fst letter_cases)" "distinct (map snd letter_cases)"
  "set (map fst letter_cases) \<inter> set (map snd letter_cases) = {}"
  by (simp_all add: letter_cases_def)

lemma upper_case_eq: "upper_case c = upper_case d \<longleftrightarrow> same_letter c d"
proof -
  define m where "m = map_of letter_cases"
  have m: "m x = Some u \<longleftrightarrow> (x, u) \<in> set letter_cases" for x u
    using letter_cases_distinct(1) by (simp add: m_def)
  have same: "same_letter c d \<longleftrightarrow> c = d \<or> m c = Some d \<or> m d = Some c"
    by (simp add: same_letter_def m)
  have inj: "x = y" if "m x = Some u" "m y = Some u" for x y u
    using that letter_cases_distinct(2) by (fastforce simp: m distinct_map inj_on_def)
  have no: "m u = None" if "m x = Some u" for x u
  proof -
    have "u \<in> set (map snd letter_cases)" using that by (force simp: m)
    then show ?thesis using letter_cases_distinct(3) by (auto simp: m_def map_of_eq_None_iff)
  qed
  show ?thesis
    unfolding same upper_case_def m_def [symmetric]
  proof (cases "m c")
    case None
    then show "((case m c of None \<Rightarrow> c | Some u \<Rightarrow> u) = (case m d of None \<Rightarrow> d | Some u \<Rightarrow> u)) \<longleftrightarrow>
        c = d \<or> m c = Some d \<or> m d = Some c"
      by (cases "m d") auto
  next
    case u: (Some u)
    show "((case m c of None \<Rightarrow> c | Some u \<Rightarrow> u) = (case m d of None \<Rightarrow> d | Some u \<Rightarrow> u)) \<longleftrightarrow>
        c = d \<or> m c = Some d \<or> m d = Some c"
    proof (cases "m d")
      case (Some v)
      with u show ?thesis using inj [of c u d] no [of c u] no [of d v] by auto
    qed (use u in auto)
  qed
qed

lemma country_key_eq:
  assumes "length a = 2" "length b = 2"
  shows "normalize_country_key a = normalize_country_key b \<longleftrightarrow> list_all2 same_letter a b"
proof -
  obtain a0 a1 b0 b1 where "a = [a0, a1]" "b = [b0, b1]"
    using assms by (auto simp: numeral_2_eq_2 length_Suc_conv)
  then show ?thesis
    by (simp add: normalize_country_key_def cat_bytes_eq to_upper_ascii_char upper_case_eq Let_def)
qed

lemma to_upper_zero: "to_upper_ascii b = 0 \<longleftrightarrow> b = 0"
  by (auto simp: to_upper_ascii_def)

lemma country_key_zero:
  "normalize_country_key a = 0 \<longleftrightarrow> length a \<noteq> 2 \<or> a = [CHR 0x00, CHR 0x00]"
proof (cases "length a = 2")
  case True
  then obtain a0 a1 where a: "a = [a0, a1]"
    by (auto simp: numeral_2_eq_2 length_Suc_conv)
  have z: "byte_of c = 0 \<longleftrightarrow> c = CHR 0x00" for c
    using byte_of_inj [of c "CHR 0x00"] by (simp add: byte_of_def)
  show ?thesis
    using cat_bytes_eq [of "to_upper_ascii (byte_of a0)" "to_upper_ascii (byte_of a1)" 0 0]
    by (simp add: a normalize_country_key_def Let_def to_upper_zero z)
qed (simp add: normalize_country_key_def)

section \<open>Lemmas: ad slots\<close>

lemma mult_fnv_inj: "(x :: u32) * 16777619 = y * 16777619 \<longleftrightarrow> x = y"
proof
  assume "x * 16777619 = y * 16777619"
  then have "x * (16777619 * 899433627) = y * (16777619 * 899433627)"
    by (simp only: mult.assoc [symmetric])
  moreover have "(16777619 * 899433627 :: u32) = 1" by code_simp
  ultimately show "x = y" by (simp only: mult_1_right)
qed simp

lemma xor_cancel_left: "(v :: 'a::len word) XOR a = v XOR b \<longleftrightarrow> a = b"
  by (metis xor.left_commute xor_self_eq xor.right_neutral xor.commute)

lemma xor_cancel_right: "(a :: 'a::len word) XOR v = b XOR v \<longleftrightarrow> a = b"
  by (metis xor_cancel_left xor.commute)

lemma hash_step_inj_char: "hash_step v c = hash_step v d \<longleftrightarrow> c = d"
proof -
  have "ucast (x :: u8) = (ucast y :: u32) \<longleftrightarrow> x = y" for x y
  proof -
    have "unat (ucast z :: u32) = unat z" for z :: u8
    proof -
      have "unat z < 2 ^ 8" by (rule less_le_trans [OF unsigned_less]) simp
      then show ?thesis by (simp add: unsigned_ucast_eq take_bit_nat_eq_self)
    qed
    then show ?thesis by (metis unsigned_word_eqI)
  qed
  then show ?thesis by (simp add: hash_step_def mult_fnv_inj xor_cancel_left)
qed

lemma hash_step_inj_state: "hash_step v c = hash_step w c \<longleftrightarrow> v = w"
  by (simp add: hash_step_def mult_fnv_inj xor_cancel_right)

lemma hash_suffix_inj: "foldl hash_step v s = foldl hash_step w s \<longleftrightarrow> v = w"
  by (induction s arbitrary: v w) (auto simp: hash_step_inj_state)

lemma ad_slot_key_one_char:
  "normalize_ad_slot_key (p @ c # s) = normalize_ad_slot_key (p @ d # s) \<longleftrightarrow> c = d"
  by (simp add: normalize_ad_slot_key_def hash_suffix_inj hash_step_inj_char)

section \<open>Lemmas: deadlines\<close>

lemma raw_budget: "unat (ucast (tmax :: u32) * kNsPerMs) = unat tmax * 1000000"
proof -
  have "unat tmax < 2 ^ 32" using unsigned_less [of tmax] by simp
  then show ?thesis
    by (simp add: kNsPerMs_def unat_word_ariths width_simps)
qed

lemma deadline_short: "unat tmax \<le> 1 \<Longrightarrow> compute_deadline_ns t tmax = t"
  by (simp add: compute_deadline_ns_def Let_def word_le_nat_alt raw_budget
      kResponseSafetyMarginNs_def)

lemma deadline_long:
  assumes "1 < unat tmax" and "unat t + (unat tmax - 1) * 1000000 < 2 ^ 64"
  shows "unat (compute_deadline_ns t tmax) = unat t + (unat tmax - 1) * 1000000"
proof -
  have b: "unat (ucast tmax * kNsPerMs - kResponseSafetyMarginNs) = (unat tmax - 1) * 1000000"
    using assms(1)
    by (subst unat_sub_no_wrap) (simp_all add: raw_budget kResponseSafetyMarginNs_def diff_mult_distrib)
  have "\<not> ucast tmax * kNsPerMs \<le> kResponseSafetyMarginNs"
    using assms(1) by (simp add: word_le_nat_alt raw_budget kResponseSafetyMarginNs_def)
  then show ?thesis
    using assms b by (simp add: compute_deadline_ns_def Let_def unat_add_no_wrap)
qed

lemma deadline_no_wrap:
  assumes "unat t + 4294967295 * 1000000 < 2 ^ 64"
  shows "unat (compute_deadline_ns t tmax) = unat t + (unat tmax - 1) * 1000000"
proof (cases "unat tmax \<le> 1")
  case False
  have "unat tmax < 2 ^ 32" using unsigned_less [of tmax] by simp
  then have "unat t + (unat tmax - 1) * 1000000 < 2 ^ 64" using assms by simp
  then show ?thesis using deadline_long [of tmax t] False by simp
qed (simp add: deadline_short)

lemma context_no_wrap:
  assumes "unat t + 4294967295 * 1000000 < 2 ^ 64"
  shows "rc_processing_status (build_request_context pm t) =
      (if unat (pm_tmax_ms pm) \<le> 1 then RP_Expired else pm_processing_status pm)"
    and "rc_no_bid_reason (build_request_context pm t) =
      (if unat (pm_tmax_ms pm) \<le> 1 then NB_DeadlineExceeded else NB_None)"
proof -
  have "compute_deadline_ns t (pm_tmax_ms pm) \<le> t \<longleftrightarrow> unat (pm_tmax_ms pm) \<le> 1"
  proof (cases "unat (pm_tmax_ms pm) \<le> 1")
    case False
    have "unat (pm_tmax_ms pm) < 2 ^ 32" using unsigned_less [of "pm_tmax_ms pm"] by simp
    then show ?thesis
      using False assms by (simp add: word_le_nat_alt deadline_long)
  qed (simp add: deadline_short)
  then show "rc_processing_status (build_request_context pm t) =
      (if unat (pm_tmax_ms pm) \<le> 1 then RP_Expired else pm_processing_status pm)"
    and "rc_no_bid_reason (build_request_context pm t) =
      (if unat (pm_tmax_ms pm) \<le> 1 then NB_DeadlineExceeded else NB_None)"
    by (simp_all add: build_request_context_def Let_def)
qed

lemma context_fields [simp]:
  "rc_request_id (build_request_context pm t) = pm_request_id pm"
  "rc_country_key (build_request_context pm t) = normalize_country_key (pm_country pm)"
  "rc_device_type_key (build_request_context pm t) = normalize_device_type_key (pm_device_type pm)"
  "rc_ad_slot_key (build_request_context pm t) = normalize_ad_slot_key (pm_ad_slot pm)"
  "rc_auction_type (build_request_context pm t) = pm_auction_type pm"
  "rc_received_at_ns (build_request_context pm t) = t"
  by (simp_all add: build_request_context_def Let_def)

section \<open>Properties\<close>

text \<open>
  C32. The deadline is one millisecond before the end of the budget, or the moment of arrival for
  budgets of at most one millisecond, with no addition wrapping for arrival times up to about
  580 years of uptime; a request that parsed is expired on arrival exactly for those budgets,
  and only then is a reason set.
\<close>

theorem budget_decides_expiry:
  assumes "unat t + 4294967295 * 1000000 < 2 ^ 64" and "pm_processing_status pm = RP_Ok"
  shows "unat (rc_deadline_ns (build_request_context pm t)) = unat t + (unat (pm_tmax_ms pm) - 1) * 1000000 \<and>
    (rc_processing_status (build_request_context pm t) = RP_Expired \<longleftrightarrow> unat (pm_tmax_ms pm) \<le> 1) \<and>
    rc_no_bid_reason (build_request_context pm t) =
      (if unat (pm_tmax_ms pm) \<le> 1 then NB_DeadlineExceeded else NB_None)"
  using context_no_wrap [OF assms(1), of pm] deadline_no_wrap [OF assms(1), of "pm_tmax_ms pm"] assms(2)
  by (simp add: build_request_context_def Let_def)

theorem budget_decides_expiry_witness:
  "unat (rc_deadline_ns (build_request_context
      \<lparr>pm_request_id = ''r'', pm_tmax_ms = 100, pm_country = ''US'', pm_device_type = ''ctv'',
       pm_ad_slot = ''a'', pm_auction_type = AT_FirstPrice, pm_processing_status = RP_Ok\<rparr> 7)) = 99000007"
proof -
  have "unat (7 :: u64) + 4294967295 * 1000000 < 2 ^ 64" by simp
  from budget_decides_expiry [OF this, of "\<lparr>pm_request_id = ''r'', pm_tmax_ms = 100, pm_country = ''US'',
      pm_device_type = ''ctv'', pm_ad_slot = ''a'', pm_auction_type = AT_FirstPrice,
      pm_processing_status = RP_Ok\<rparr>"]
  show ?thesis by simp
qed

text \<open>
  C33. Two-letter countries share a key exactly when they are the same letters in any case, the
  letters being those of the two alphabets, and their key is zero only for two null characters.
\<close>

theorem country_keys_ignore_case:
  assumes "length a = 2" and "length b = 2"
  shows "(normalize_country_key a = normalize_country_key b \<longleftrightarrow>
      list_all2 same_letter a b) \<and>
    (normalize_country_key a = 0 \<longleftrightarrow> a = [CHR 0x00, CHR 0x00])"
  using country_key_eq [OF assms] country_key_zero [of a] assms by simp

theorem country_keys_ignore_case_witness:
  "normalize_country_key ''us'' = normalize_country_key ''US'' \<and> normalize_country_key ''us'' \<noteq> 0"
proof -
  have "length ''us'' = 2" "length ''US'' = 2" by simp_all
  note keys = country_keys_ignore_case [OF this]
  have "list_all2 same_letter ''us'' ''US''" by (simp add: same_letter_def letter_cases_def)
  moreover have "''us'' \<noteq> [CHR 0x00, CHR 0x00]" by simp
  ultimately show ?thesis using keys by blast
qed

text \<open>
  C34. The hash of the ad slot tells two slots apart that differ in exactly one character,
  wherever it stands; and a common suffix changes nothing: two slots that end alike share a
  key exactly when what stands before the suffix does.
\<close>

theorem ad_slot_key_one_difference:
  "(normalize_ad_slot_key (p @ c # s) = normalize_ad_slot_key (p @ d # s) \<longleftrightarrow> c = d) \<and>
    (normalize_ad_slot_key (p @ s) = normalize_ad_slot_key (q @ s) \<longleftrightarrow>
      normalize_ad_slot_key p = normalize_ad_slot_key q)"
  using ad_slot_key_one_char hash_suffix_inj by (simp add: normalize_ad_slot_key_def)

end
