(* ===== verification/Rtb_Store.thy ===== *)
theory Rtb_Store
  imports Rtb_Normalize Rtb_Text
begin

text \<open>
  The campaign store and its loader: \<open>src/campaign_store.cc\<close>. The file system is a function
  from paths to file contents (\<open>None\<close>: the file cannot be opened). The loops over a line are
  the index loops of the source; the lemmas show that they compute the reference notions
  (trimming both ends, cutting at the delimiter), that a successful load establishes the
  invariant \<open>store_wf\<close> the retrieval relies on, and which snapshot a line adds.
\<close>

section \<open>Fields of a line\<close>

definition is_blank :: "char \<Rightarrow> bool" where
  "is_blank c \<longleftrightarrow> c = CHR '' '' \<or> c = CHR 0x09 \<or> c = CHR 0x0D"

function skip_left :: "string \<Rightarrow> nat \<Rightarrow> nat" where
  "skip_left value start =
    (if start < length value \<and> is_blank (value ! start) then skip_left value (start + 1) else start)"
  by pat_completeness auto
termination
  by (relation "measure (\<lambda>(value, start). length value - start)") auto

fun skip_right :: "string \<Rightarrow> nat \<Rightarrow> nat \<Rightarrow> nat" where
  "skip_right value start e =
    (if start < e \<and> is_blank (value ! (e - 1)) then skip_right value start (e - 1) else e)"

declare skip_left.simps [simp del] skip_right.simps [simp del]

definition trim_copy :: "string \<Rightarrow> string" where
  "trim_copy value =
    (let start = skip_left value 0;
         e = skip_right value start (length value)
     in take (e - start) (drop start value))"

function split_fields :: "string \<Rightarrow> nat \<Rightarrow> string list" where
  "split_fields line start =
    (if start \<le> length line then
       (case find_from kCsvDelimiter line start of
          None \<Rightarrow> [trim_copy (drop start line)]
        | Some delimiter \<Rightarrow>
            trim_copy (take (delimiter - start) (drop start line)) # split_fields line (delimiter + 1))
     else [])"
  by pat_completeness auto
termination
  by (relation "measure (\<lambda>(line, start). Suc (length line) - start)")
     (auto dest: find_from_bounds)

declare split_fields.simps [simp del]

definition split_csv_line :: "string \<Rightarrow> string list" where
  "split_csv_line line = split_fields line 0"

section \<open>Creatives\<close>

function creative_loop ::
  "string \<Rightarrow> AdSlotKey \<Rightarrow> nat \<Rightarrow> CreativeRecord list \<Rightarrow> u32 \<Rightarrow> bool \<times> CreativeRecord list \<times> u32" where
  "creative_loop value ad_slot_key start creatives count =
    (if start < length value then
       let delimiter = find_from kCreativeDelimiter value start;
           token = (case delimiter of None \<Rightarrow> drop start value
                    | Some d \<Rightarrow> take (d - start) (drop start value)) in
       if token \<noteq> [] \<and> parse_u64 token = None then (False, creatives, count)
       else
         let added = (token \<noteq> []);
             creatives = (if added
               then creatives @ [\<lparr>cv_creative_id = the (parse_u64 token), cv_ad_slot_key = ad_slot_key\<rparr>]
               else creatives);
             count = (if added then count + 1 else count) in
         case delimiter of
           None \<Rightarrow> (True, creatives, count)
         | Some d \<Rightarrow> creative_loop value ad_slot_key (d + 1) creatives count
     else (True, creatives, count))"
  by pat_completeness auto
termination
  by (relation "measure (\<lambda>(value, k, start, cs, n). length value - start)")
     (auto dest!: find_from_bounds [OF sym])

declare creative_loop.simps [simp del]

text \<open>Result, \<open>creatives_out\<close>, \<open>creative_offset_out\<close>, \<open>creative_count_out\<close>.\<close>

definition parse_creative_specs ::
  "string \<Rightarrow> AdSlotKey \<Rightarrow> CreativeRecord list \<Rightarrow> bool \<times> CreativeRecord list \<times> u32 \<times> u32" where
  "parse_creative_specs value ad_slot_key creatives_out =
    (let offset = word_of_nat (length creatives_out);
         (ok, creatives, count) = creative_loop value ad_slot_key 0 creatives_out 0
     in (ok \<and> count > 0, creatives, offset, count))"

section \<open>Appending a campaign\<close>

text \<open>\<open>m[k].push_back(v)\<close> on an \<open>unordered_map\<close> of vectors.\<close>

definition push_index :: "('k \<rightharpoonup> 'v list) \<Rightarrow> 'k \<Rightarrow> 'v \<Rightarrow> ('k \<rightharpoonup> 'v list)" where
  "push_index m k v = m(k \<mapsto> (case m k of None \<Rightarrow> [] | Some vs \<Rightarrow> vs) @ [v])"

definition append_campaign_line ::
  "string list \<Rightarrow> CampaignStoreSnapshot \<Rightarrow> bool \<times> CampaignStoreSnapshot" where
  "append_campaign_line flds snapshot =
    (if length flds \<noteq> 8 then (False, snapshot)
     else
       case (parse_u64 (flds ! 0), parse_double_value (flds ! 4),
             parse_double_value (flds ! 5), parse_bool_value (flds ! 6)) of
         (Some campaign_id, Some value_per_action, Some aggressiveness, Some active) \<Rightarrow>
           let country_key = normalize_country_key (flds ! 1);
               device_type_key = normalize_device_type_key (flds ! 2);
               ad_slot_key = normalize_ad_slot_key (flds ! 3) in
           if country_key = 0 \<or> device_type_key = DT_Unknown \<or> ad_slot_key = 0
           then (False, snapshot)
           else
             let (ok, creatives, creative_offset, creative_count) =
                   parse_creative_specs (flds ! 7) ad_slot_key (cs_creatives snapshot);
                 snapshot = snapshot\<lparr>cs_creatives := creatives\<rparr> in
             if \<not> ok then (False, snapshot)
             else
               let campaign_index = word_of_nat (length (cs_campaigns snapshot)) :: u32;
                   campaign =
                     \<lparr>cr_campaign_id = campaign_id, cr_country_key = country_key,
                      cr_device_type_key = device_type_key, cr_ad_slot_key = ad_slot_key,
                      cr_value_per_action = value_per_action, cr_aggressiveness = aggressiveness,
                      cr_creative_offset = creative_offset, cr_creative_count = creative_count,
                      cr_active = active\<rparr> in
               (True, snapshot
                 \<lparr>cs_campaigns := cs_campaigns snapshot @ [campaign],
                  cs_by_country := push_index (cs_by_country snapshot) country_key campaign_index,
                  cs_by_ad_slot := push_index (cs_by_ad_slot snapshot) ad_slot_key campaign_index\<rparr>)
       | _ \<Rightarrow> (False, snapshot))"

section \<open>Loading a file\<close>

text \<open>The lines \<open>std::getline\<close> yields: a final newline ends the last line.\<close>

definition getlines :: "string \<Rightarrow> string list" where
  "getlines content =
    (let parts = split_on (CHR 0x0A) content
     in if last parts = [] then butlast parts else parts)"

fun load_lines :: "nat \<Rightarrow> string list \<Rightarrow> CampaignStoreSnapshot \<Rightarrow> CampaignStoreSnapshot option" where
  "load_lines line_number [] snapshot = Some snapshot"
| "load_lines line_number (line # lines) snapshot =
    (let line_number = line_number + 1 in
     if line = [] \<or> line ! 0 = CHR ''#'' then load_lines line_number lines snapshot
     else if line_number = 1 \<and> take 12 line = ''campaign_id,''
     then load_lines line_number lines snapshot
     else
       let (ok, snapshot) = append_campaign_line (split_csv_line line) snapshot
       in if ok then load_lines line_number lines snapshot else None)"

definition load_campaign_store_snapshot ::
  "(string \<Rightarrow> string option) \<Rightarrow> string \<Rightarrow> CampaignStoreSnapshot option" where
  "load_campaign_store_snapshot files path =
    (case files path of
       None \<Rightarrow> None
     | Some content \<Rightarrow> load_lines 0 (getlines content) empty_store)"

section \<open>Lemmas: trimming and cutting\<close>

text \<open>The reference notion of trimming.\<close>

definition trim :: "string \<Rightarrow> string" where
  "trim s = rev (dropWhile is_blank (rev (dropWhile is_blank s)))"

lemma skip_left_drop:
  "start \<le> length v \<Longrightarrow> drop (skip_left v start) v = dropWhile is_blank (drop start v) \<and>
    skip_left v start \<le> length v"
proof (induction v start rule: skip_left.induct)
  case (1 v start)
  show ?case
  proof (cases "start < length v \<and> is_blank (v ! start)")
    case True
    then have "drop start v = v ! start # drop (Suc start) v" by (simp add: Cons_nth_drop_Suc)
    then show ?thesis using True 1 by (subst (1 2) skip_left.simps) simp
  next
    case False
    have "dropWhile is_blank (drop start v) = drop start v"
      using False by (cases "drop start v") (auto simp: nth_via_drop dest: drop_eq_Nil2 [THEN iffD1])
    then show ?thesis using False 1(2) by (subst (1 2) skip_left.simps) auto
  qed
qed

lemma skip_right_take:
  "start \<le> e \<Longrightarrow> e \<le> length v \<Longrightarrow>
    take (skip_right v start e - start) (drop start v) =
      rev (dropWhile is_blank (rev (take (e - start) (drop start v))))"
proof (induction v start e rule: skip_right.induct)
  case (1 v start e)
  show ?case
  proof (cases "start < e")
    case True
    then have "e - start = Suc (e - 1 - start)" "start + (e - 1 - start) = e - 1" by linarith+
    then have eq: "take (e - start) (drop start v) = take (e - 1 - start) (drop start v) @ [v ! (e - 1)]"
      using True 1(3) take_Suc_conv_app_nth [of "e - 1 - start" "drop start v"]
      by (simp only: nth_drop) simp
    show ?thesis
      using 1 True by (subst skip_right.simps) (auto simp: eq)
  next
    case False
    then show ?thesis by (subst skip_right.simps) simp
  qed
qed

lemma trim_copy_trim [spec_simps]: "trim_copy v = trim v"
proof -
  have "drop (skip_left v 0) v = dropWhile is_blank v" and le: "skip_left v 0 \<le> length v"
    using skip_left_drop [of 0 v] by auto
  moreover have "length (dropWhile is_blank v) = length v - skip_left v 0"
    using calculation by (metis length_drop)
  ultimately show ?thesis
    using skip_right_take [OF le order_refl]
    by (simp add: trim_copy_def trim_def Let_def)
qed

lemma split_fields_split:
  "start \<le> length line \<Longrightarrow>
    split_fields line start = map trim (split_on kCsvDelimiter (drop start line))"
proof (induction line start rule: split_fields.induct)
  case (1 line start)
  show ?case
  proof (cases "find_from kCsvDelimiter line start")
    case None
    then show ?thesis
      using 1(2) by (subst split_fields.simps) (simp add: split_on_scan_None spec_simps)
  next
    case (Some d)
    with find_from_bounds have "d + 1 \<le> length line" by fastforce
    then show ?thesis
      using 1 Some by (subst split_fields.simps) (simp add: split_on_scan_Some spec_simps)
  qed
qed

lemma split_csv_line_spec [spec_simps]: "split_csv_line line = map trim (split_on kCsvDelimiter line)"
  by (simp add: split_csv_line_def split_fields_split)

section \<open>Lemmas: creatives\<close>

text \<open>The non-empty parts of a creative list, and the records they stand for.\<close>

definition creative_tokens :: "string \<Rightarrow> string list" where
  "creative_tokens s = filter (\<lambda>t. t \<noteq> []) (split_on kCreativeDelimiter s)"

definition creative_records :: "AdSlotKey \<Rightarrow> string list \<Rightarrow> CreativeRecord list" where
  "creative_records key ts =
    map (\<lambda>t. \<lparr>cv_creative_id = the (parse_u64 t), cv_ad_slot_key = key\<rparr>) ts"

lemma creative_loop_spec:
  "\<exists>ts. creative_loop val key start cs n =
      (list_all (\<lambda>t. parse_u64 t \<noteq> None) (creative_tokens (drop start val)),
       cs @ creative_records key ts, n + word_of_nat (length ts)) \<and>
    (list_all (\<lambda>t. parse_u64 t \<noteq> None) (creative_tokens (drop start val)) \<longrightarrow>
      ts = creative_tokens (drop start val))"
proof (induction "length val - start" arbitrary: start cs n rule: less_induct)
  case less
  note unfold = creative_loop.simps [of val key start cs n]
  show ?case
  proof (cases "start < length val")
    case False
    then show ?thesis
      by (intro exI [of _ "[]"]) (simp add: unfold creative_tokens_def creative_records_def)
  next
    case True
    show ?thesis
    proof (cases "find_from kCreativeDelimiter val start")
      case None
      then have "creative_tokens (drop start val) = [drop start val]"
        using True by (simp add: creative_tokens_def split_on_scan_None)
      then show ?thesis
        using True None
        by (cases "parse_u64 (drop start val)")
           (auto intro!: exI [of _ "[]"] exI [of _ "[drop start val]"]
             simp: unfold Let_def creative_records_def)
    next
      case (Some d)
      define t where "t = take (d - start) (drop start val)"
      have toks: "creative_tokens (drop start val) =
          (if t = [] then [] else [t]) @ creative_tokens (drop (d + 1) val)"
        using Some by (simp add: creative_tokens_def split_on_scan_Some t_def)
      have "length val - (d + 1) < length val - start"
        using find_from_bounds [OF Some] True by linarith
      note IH = less [OF this]
      show ?thesis
      proof (cases "t = []")
        case True
        then show ?thesis
          using IH [of cs n] \<open>start < length val\<close> toks
          by (simp add: unfold Some t_def [symmetric])
      next
        case False
        show ?thesis
        proof (cases "parse_u64 t")
          case None
          then show ?thesis
            using False \<open>start < length val\<close> toks
            by (intro exI [of _ "[]"])
               (simp add: unfold Some t_def [symmetric] creative_records_def)
        next
          case (Some v)
          let ?c = "\<lparr>cv_creative_id = v, cv_ad_slot_key = key\<rparr>"
          obtain ts where ts: "creative_loop val key (d + 1) (cs @ [?c]) (n + 1) =
              (list_all (\<lambda>t. parse_u64 t \<noteq> None) (creative_tokens (drop (d + 1) val)),
               (cs @ [?c]) @ creative_records key ts, n + 1 + word_of_nat (length ts))"
            "list_all (\<lambda>t. parse_u64 t \<noteq> None) (creative_tokens (drop (d + 1) val)) \<longrightarrow>
              ts = creative_tokens (drop (d + 1) val)"
            using IH [of "cs @ [?c]" "n + 1"] by blast
          then show ?thesis
            using False \<open>start < length val\<close> toks Some
              \<open>find_from kCreativeDelimiter val start = Some d\<close>
            by (intro exI [of _ "t # ts"])
               (simp add: unfold t_def [symmetric] creative_records_def add.assoc)
        qed
      qed
    qed
  qed
qed

lemma parse_creative_specs_ok:
  assumes "parse_creative_specs val key cs = (True, cs', off, n)"
  shows "cs' = cs @ creative_records key (creative_tokens val)"
    and "off = word_of_nat (length cs)"
    and "n = word_of_nat (length (creative_tokens val))" and "n \<noteq> 0"
    and "\<forall>t \<in> set (creative_tokens val). parse_u64 t \<noteq> None"
  using assms creative_loop_spec [of val key 0 cs 0]
  by (auto simp: parse_creative_specs_def list_all_iff word_gt_0)

lemma parse_creative_specs_grows:
  "parse_creative_specs val key cs = (ok, cs', off, n) \<Longrightarrow> \<exists>new. cs' = cs @ new"
  using creative_loop_spec [of val key 0 cs 0] by (auto simp: parse_creative_specs_def)

section \<open>The indexes\<close>

text \<open>
  What an index promises: the bucket of a key holds the positions, in order, of the campaigns
  with that key, and keys of no campaign have no bucket.
\<close>

definition positions :: "('c \<Rightarrow> 'k) \<Rightarrow> 'c list \<Rightarrow> 'k \<Rightarrow> nat list" where
  "positions key cs k = filter (\<lambda>i. key (cs ! i) = k) [0..<length cs]"

definition bucket :: "('c \<Rightarrow> 'k) \<Rightarrow> 'c list \<Rightarrow> 'k \<Rightarrow> u32 list option" where
  "bucket key cs k =
    (if positions key cs k = [] then None else Some (map word_of_nat (positions key cs k)))"

lemma positions_snoc:
  "positions key (cs @ [c]) k = positions key cs k @ (if key c = k then [length cs] else [])"
proof -
  have "filter (\<lambda>i. key ((cs @ [c]) ! i) = k) [0..<length cs] = positions key cs k"
    unfolding positions_def by (rule filter_cong) (auto simp: nth_append)
  then show ?thesis by (simp add: positions_def [of key "cs @ [c]"])
qed

lemma bucket_snoc:
  "(\<lambda>k. bucket key (cs @ [c]) k) = push_index (\<lambda>k. bucket key cs k) (key c) (word_of_nat (length cs))"
  by (rule ext) (auto simp: bucket_def push_index_def positions_snoc)

lemma positions_map: "map ((!) cs) (filter (\<lambda>i. P (cs ! i)) [0..<length cs]) = filter P cs"
  using filter_map [of P "(!) cs" "[0..<length cs]"] by (simp add: map_nth comp_def)

section \<open>The invariant of the store\<close>

text \<open>A campaign's creatives: a slice of the common vector, each for the campaign's slot.\<close>

definition campaign_wf :: "CreativeRecord list \<Rightarrow> CampaignRecord \<Rightarrow> bool" where
  "campaign_wf crs c \<longleftrightarrow>
    cr_country_key c \<noteq> 0 \<and> cr_device_type_key c \<noteq> DT_Unknown \<and> cr_ad_slot_key c \<noteq> 0 \<and>
    0 < unat (cr_creative_count c) \<and>
    unat (cr_creative_offset c) + unat (cr_creative_count c) \<le> length crs \<and>
    (\<forall>cv \<in> set (take (unat (cr_creative_count c)) (drop (unat (cr_creative_offset c)) crs)).
      cv_ad_slot_key cv = cr_ad_slot_key c)"

definition store_fits :: "CampaignStoreSnapshot \<Rightarrow> bool" where
  "store_fits s \<longleftrightarrow> length (cs_campaigns s) < 2 ^ 32 \<and> length (cs_creatives s) < 2 ^ 32"

definition store_wf :: "CampaignStoreSnapshot \<Rightarrow> bool" where
  "store_wf s \<longleftrightarrow>
    store_fits s \<and> (\<forall>c \<in> set (cs_campaigns s). campaign_wf (cs_creatives s) c) \<and>
    cs_by_country s = (\<lambda>k. bucket cr_country_key (cs_campaigns s) k) \<and>
    cs_by_ad_slot s = (\<lambda>k. bucket cr_ad_slot_key (cs_campaigns s) k)"

lemma empty_store_wf [wf_intros]: "store_wf empty_store"
  by (simp add: store_wf_def store_fits_def empty_store_def bucket_def positions_def)

lemma campaign_wf_append: "campaign_wf crs c \<Longrightarrow> campaign_wf (crs @ new) c"
  by (auto simp: campaign_wf_def)

lemma append_campaign_line_grows:
  "append_campaign_line flds s = (ok, s') \<Longrightarrow>
    length (cs_campaigns s) \<le> length (cs_campaigns s') \<and>
    length (cs_creatives s) \<le> length (cs_creatives s')"
  by (auto simp: append_campaign_line_def Let_def dest!: parse_creative_specs_grows
      split: if_splits option.splits prod.splits)

lemma append_campaign_line_ok:
  assumes "append_campaign_line flds s = (True, s')"
  obtains c ts where "length flds = 8"
    and "cs_campaigns s' = cs_campaigns s @ [c]"
    and "cs_creatives s' = cs_creatives s @ creative_records (cr_ad_slot_key c) ts"
    and "cs_by_country s' = push_index (cs_by_country s) (cr_country_key c) (word_of_nat (length (cs_campaigns s)))"
    and "cs_by_ad_slot s' = push_index (cs_by_ad_slot s) (cr_ad_slot_key c) (word_of_nat (length (cs_campaigns s)))"
    and "Some (cr_campaign_id c) = parse_u64 (flds ! 0)"
    and "cr_country_key c = normalize_country_key (flds ! 1)" "cr_country_key c \<noteq> 0"
    and "cr_device_type_key c = normalize_device_type_key (flds ! 2)" "cr_device_type_key c \<noteq> DT_Unknown"
    and "cr_ad_slot_key c = normalize_ad_slot_key (flds ! 3)" "cr_ad_slot_key c \<noteq> 0"
    and "Some (cr_value_per_action c) = parse_double_value (flds ! 4)"
    and "Some (cr_aggressiveness c) = parse_double_value (flds ! 5)"
    and "Some (cr_active c) = parse_bool_value (flds ! 6)"
    and "ts = creative_tokens (flds ! 7)" "\<forall>t \<in> set ts. parse_u64 t \<noteq> None"
    and "cr_creative_offset c = word_of_nat (length (cs_creatives s))"
    and "cr_creative_count c = word_of_nat (length ts)" "cr_creative_count c \<noteq> 0"
proof -
  from assms obtain cid vpa agg act crs off n where
    p: "length flds = 8" "parse_u64 (flds ! 0) = Some cid" "parse_double_value (flds ! 4) = Some vpa"
      "parse_double_value (flds ! 5) = Some agg" "parse_bool_value (flds ! 6) = Some act"
      "normalize_country_key (flds ! 1) \<noteq> 0" "normalize_device_type_key (flds ! 2) \<noteq> DT_Unknown"
      "normalize_ad_slot_key (flds ! 3) \<noteq> 0"
      "parse_creative_specs (flds ! 7) (normalize_ad_slot_key (flds ! 3)) (cs_creatives s) = (True, crs, off, n)"
    and s': "s' = s
      \<lparr>cs_creatives := crs,
       cs_campaigns := cs_campaigns s @
         [\<lparr>cr_campaign_id = cid, cr_country_key = normalize_country_key (flds ! 1),
           cr_device_type_key = normalize_device_type_key (flds ! 2),
           cr_ad_slot_key = normalize_ad_slot_key (flds ! 3), cr_value_per_action = vpa,
           cr_aggressiveness = agg, cr_creative_offset = off, cr_creative_count = n, cr_active = act\<rparr>],
       cs_by_country := push_index (cs_by_country s) (normalize_country_key (flds ! 1))
         (word_of_nat (length (cs_campaigns s))),
       cs_by_ad_slot := push_index (cs_by_ad_slot s) (normalize_ad_slot_key (flds ! 3))
         (word_of_nat (length (cs_campaigns s)))\<rparr>"
    by (auto simp: append_campaign_line_def Let_def split: if_splits option.splits prod.splits)
  note pc = parse_creative_specs_ok [OF p(9)]
  show thesis
    by (rule that [of "last (cs_campaigns s')" "creative_tokens (flds ! 7)"])
       (use p pc in \<open>simp_all add: s'\<close>)
qed

lemma append_campaign_line_wf:
  assumes wf: "store_wf s" and app: "append_campaign_line flds s = (True, s')"
    and fits: "store_fits s'"
  shows "store_wf s'"
proof -
  from app show ?thesis
  proof (rule append_campaign_line_ok)
    fix c ts
    assume c: "cs_campaigns s' = cs_campaigns s @ [c]"
      and cr: "cs_creatives s' = cs_creatives s @ creative_records (cr_ad_slot_key c) ts"
      and ix: "cs_by_country s' = push_index (cs_by_country s) (cr_country_key c) (word_of_nat (length (cs_campaigns s)))"
        "cs_by_ad_slot s' = push_index (cs_by_ad_slot s) (cr_ad_slot_key c) (word_of_nat (length (cs_campaigns s)))"
      and keys: "cr_country_key c \<noteq> 0" "cr_device_type_key c \<noteq> DT_Unknown" "cr_ad_slot_key c \<noteq> 0"
      and sl: "cr_creative_offset c = word_of_nat (length (cs_creatives s))"
        "cr_creative_count c = word_of_nat (length ts)" "cr_creative_count c \<noteq> 0"
    have "length (creative_records (cr_ad_slot_key c) ts) = length ts"
      by (simp add: creative_records_def)
    then have "unat (cr_creative_offset c) = length (cs_creatives s)"
      and "unat (cr_creative_count c) = length ts"
      using fits sl cr by (simp_all add: store_fits_def unat_of_nat_u32)
    then have "campaign_wf (cs_creatives s') c"
      using keys sl(3) cr by (auto simp: campaign_wf_def creative_records_def unat_eq_0)
    moreover have "campaign_wf (cs_creatives s') c'" if "c' \<in> set (cs_campaigns s)" for c'
      using wf that cr by (auto simp: store_wf_def campaign_wf_append)
    ultimately show ?thesis
      using wf fits ix c by (auto simp: store_wf_def bucket_snoc)
  qed
qed

section \<open>Loading establishes the invariant\<close>

text \<open>The lines that carry a campaign; each adds exactly one record, in order.\<close>

fun data_lines :: "nat \<Rightarrow> string list \<Rightarrow> string list" where
  "data_lines n [] = []"
| "data_lines n (line # lines) =
     (if line = [] \<or> line ! 0 = CHR ''#'' \<or> (n = 0 \<and> take 12 line = ''campaign_id,'')
      then data_lines (n + 1) lines else line # data_lines (n + 1) lines)"

text \<open>Every line of a successful load was skipped or appended.\<close>

lemma load_lines_ConsE:
  assumes "load_lines n (line # lines) s = Some s'"
  obtains "load_lines (n + 1) lines s = Some s'" "data_lines n (line # lines) = data_lines (n + 1) lines"
  | s1 where "append_campaign_line (split_csv_line line) s = (True, s1)"
      "load_lines (n + 1) lines s1 = Some s'" "data_lines n (line # lines) = line # data_lines (n + 1) lines"
  using assms by (auto simp: Let_def split: if_splits prod.splits)

lemma load_lines_grows:
  "load_lines n ls s = Some s' \<Longrightarrow>
    length (cs_campaigns s) \<le> length (cs_campaigns s') \<and>
    length (cs_creatives s) \<le> length (cs_creatives s')"
proof (induction ls arbitrary: n s)
  case (Cons line lines)
  from Cons.prems show ?case
    by (rule load_lines_ConsE) (use Cons.IH append_campaign_line_grows order_trans in blast)+
qed simp

lemma load_lines_wf:
  "load_lines n ls s = Some s' \<Longrightarrow> store_wf s \<Longrightarrow> store_fits s' \<Longrightarrow> store_wf s'"
proof (induction ls arbitrary: n s)
  case (Cons line lines)
  from Cons.prems(1) show ?case
  proof (rule load_lines_ConsE)
    fix s1
    assume a: "append_campaign_line (split_csv_line line) s = (True, s1)"
      and l: "load_lines (n + 1) lines s1 = Some s'"
    have "store_fits s1"
      using load_lines_grows [OF l] Cons.prems(3) by (simp add: store_fits_def)
    then have "store_wf s1" by (rule append_campaign_line_wf [OF Cons.prems(2) a])
    then show ?thesis using Cons.IH [OF l] Cons.prems(3) by blast
  qed (use Cons in blast)
qed simp

lemma load_store_wf:
  assumes "load_campaign_store_snapshot files path = Some s" "store_fits s"
  shows "store_wf s"
  using assms load_lines_wf [of 0 _ empty_store s] empty_store_wf
  by (auto simp: load_campaign_store_snapshot_def split: option.splits)

lemma load_lines_count:
  "load_lines n ls s = Some s' \<Longrightarrow>
    length (cs_campaigns s') = length (cs_campaigns s) + length (data_lines n ls)"
proof (induction ls arbitrary: n s)
  case (Cons line lines)
  from Cons.prems show ?case
  proof (rule load_lines_ConsE)
    fix s1
    assume a: "append_campaign_line (split_csv_line line) s = (True, s1)"
      and l: "load_lines (n + 1) lines s1 = Some s'"
      and d: "data_lines n (line # lines) = line # data_lines (n + 1) lines"
    have "length (cs_campaigns s1) = Suc (length (cs_campaigns s))"
      using a by (rule append_campaign_line_ok) simp
    then show ?thesis using Cons.IH [OF l] d by simp
  qed (use Cons.IH in simp)
qed simp

section \<open>What a line says\<close>

text \<open>A campaign record describes the fields of its line.\<close>

definition describes :: "string list \<Rightarrow> CampaignRecord \<Rightarrow> bool" where
  "describes flds c \<longleftrightarrow>
    length flds = 8 \<and> parse_u64 (flds ! 0) = Some (cr_campaign_id c) \<and>
    cr_country_key c = normalize_country_key (flds ! 1) \<and> cr_country_key c \<noteq> 0 \<and>
    cr_device_type_key c = normalize_device_type_key (flds ! 2) \<and> cr_device_type_key c \<noteq> DT_Unknown \<and>
    cr_ad_slot_key c = normalize_ad_slot_key (flds ! 3) \<and> cr_ad_slot_key c \<noteq> 0 \<and>
    parse_double_value (flds ! 4) = Some (cr_value_per_action c) \<and>
    parse_double_value (flds ! 5) = Some (cr_aggressiveness c) \<and>
    parse_bool_value (flds ! 6) = Some (cr_active c) \<and>
    cr_creative_count c = word_of_nat (length (creative_tokens (flds ! 7)))"

lemma load_lines_describes:
  assumes "load_lines n ls s = Some s'"
  shows "\<exists>new. cs_campaigns s' = cs_campaigns s @ new \<and>
    list_all2 (\<lambda>line c. describes (map trim (split_on kCsvDelimiter line)) c) (data_lines n ls) new"
  using assms
proof (induction ls arbitrary: n s)
  case (Cons line ls)
  from Cons.prems show ?case
  proof (cases rule: load_lines_ConsE)
    case 1
    then show ?thesis using Cons.IH by auto
  next
    case (2 s1)
    from Cons.IH [OF 2(2)] obtain new where new: "cs_campaigns s' = cs_campaigns s1 @ new"
      "list_all2 (\<lambda>line c. describes (map trim (split_on kCsvDelimiter line)) c) (data_lines (n + 1) ls) new"
      by blast
    from 2(1) obtain c where "cs_campaigns s1 = cs_campaigns s @ [c]"
      "describes (split_csv_line line) c"
      by (elim append_campaign_line_ok) (auto simp: describes_def)
    then show ?thesis using new 2(3) by (intro exI [of _ "c # new"]) (simp add: split_csv_line_spec)
  qed
qed simp

text \<open>Which creative lists are accepted.\<close>

lemma parse_creative_specs_iff:
  assumes "length (creative_tokens val) < 2 ^ 32"
  shows "(fst (parse_creative_specs val key cs) \<longleftrightarrow>
      creative_tokens val \<noteq> [] \<and> list_all (\<lambda>t. parse_u64 t \<noteq> None) (creative_tokens val)) \<and>
    (if fst (parse_creative_specs val key cs)
     then fst (snd (parse_creative_specs val key cs)) = cs @ creative_records key (creative_tokens val)
     else True)"
proof -
  obtain ts where cl: "creative_loop val key 0 cs 0 =
      (list_all (\<lambda>t. parse_u64 t \<noteq> None) (creative_tokens val), cs @ creative_records key ts,
       word_of_nat (length ts))"
    and ts: "list_all (\<lambda>t. parse_u64 t \<noteq> None) (creative_tokens val) \<longrightarrow> ts = creative_tokens val"
    using creative_loop_spec [of val key 0 cs 0] by auto
  let ?n = "word_of_nat (length (creative_tokens val)) :: u32"
  have "unat ?n = length (creative_tokens val)" using assms by (simp add: unat_of_nat_u32)
  then have "?n = 0 \<longleftrightarrow> creative_tokens val = []" using unat_eq_0 [of ?n] by simp
  then show ?thesis using cl ts by (auto simp: parse_creative_specs_def word_gt_0)
qed

text \<open>A file with a header, a comment and one campaign.\<close>

definition sample_csv :: string where
  "sample_csv = ''campaign_id,country\<newline># note\<newline>7,US,ctv,home,1.5,0.5,true,101|102\<newline>''"

lemma parse_sample_numbers:
  "parse_u64 ''7'' = Some 7" "parse_u64 ''101'' = Some 101" "parse_u64 ''102'' = Some 102"
  "parse_u64 '' 102'' = None"
  by (simp_all add: parse_u64_decimal decimal_u64_def is_digit_def digits_value_def digit_value_def)

lemma parse_sample_values:
  "parse_double_value ''1.5'' = Some (3 / 2)" "parse_double_value ''0.5'' = Some (1 / 2)"
  "parse_bool_value ''true'' = Some True"
  "normalize_ad_slot_key ''home'' \<noteq> 0" "normalize_country_key ''US'' \<noteq> 0"
  "normalize_device_type_key ''ctv'' = DT_ConnectedTv"
  by code_simp+

lemma sample_lines:
  "getlines sample_csv =
    [''campaign_id,country'', ''# note'', ''7,US,ctv,home,1.5,0.5,true,101|102'']"
  "split_csv_line ''7,US,ctv,home,1.5,0.5,true,101|102'' =
    [''7'', ''US'', ''ctv'', ''home'', ''1.5'', ''0.5'', ''true'', ''101|102'']"
  by code_simp+

lemma sample_load:
  "\<exists>s c. load_campaign_store_snapshot (\<lambda>_. Some sample_csv) path = Some s \<and> cs_campaigns s = [c] \<and>
    length (cs_creatives s) = 2 \<and> cr_active c \<and> cr_country_key c = normalize_country_key ''US'' \<and>
    cr_device_type_key c = normalize_device_type_key ''ctv'' \<and> cr_ad_slot_key c = normalize_ad_slot_key ''home''"
proof -
  let ?key = "normalize_ad_slot_key ''home''"
  have t: "creative_tokens ''101|102'' = [''101'', ''102'']"
    by (simp add: creative_tokens_def kCreativeDelimiter_def)
  obtain ok cs off n where p: "parse_creative_specs ''101|102'' ?key [] = (ok, cs, off, n)"
    by (metis prod_cases4)
  have "length (creative_tokens ''101|102'') < 2 ^ 32" by (simp add: t)
  from parse_creative_specs_iff [OF this, of ?key "[]", unfolded p fst_conv snd_conv t]
  have "ok" "length cs = 2"
    by (simp_all add: parse_sample_numbers creative_records_def)
  then show ?thesis
    using p parse_sample_values
    by (simp add: load_campaign_store_snapshot_def sample_lines append_campaign_line_def empty_store_def Let_def
        parse_sample_numbers)
qed

section \<open>Properties\<close>

text \<open>
  C17. A store that was loaded from a file is well-formed: every campaign has nonzero keys and
  a nonempty range of creatives inside the table, all of its own slot, and both indices list,
  for every key, exactly the positions of the campaigns with that key.
\<close>

theorem loaded_store_well_formed:
  assumes "load_campaign_store_snapshot files path = Some s" and "store_fits s"
  shows "list_all (campaign_wf (cs_creatives s)) (cs_campaigns s) \<and>
    cs_by_country s = (\<lambda>k. bucket cr_country_key (cs_campaigns s) k) \<and>
    cs_by_ad_slot s = (\<lambda>k. bucket cr_ad_slot_key (cs_campaigns s) k)"
  using load_store_wf [OF assms] by (simp add: store_wf_def list_all_iff)

theorem loaded_store_well_formed_witness:
  "\<exists>s c. load_campaign_store_snapshot (\<lambda>_. Some sample_csv) ''f'' = Some s \<and> cs_campaigns s = [c] \<and>
    campaign_wf (cs_creatives s) c"
proof -
  obtain s c where s: "load_campaign_store_snapshot (\<lambda>_. Some sample_csv) ''f'' = Some s"
    "cs_campaigns s = [c]" "length (cs_creatives s) = 2" using sample_load by blast
  have "store_fits s" using s by (simp add: store_fits_def)
  from loaded_store_well_formed [OF s(1) this] s show ?thesis by auto
qed

text \<open>
  C23. Loading keeps every line: the campaigns of a loaded store are, in order, the lines of
  the file other than empty lines, comments and a header in the first line, each campaign
  holding what the trimmed fields of its line say.
\<close>

theorem loaded_campaigns_are_lines:
  assumes "files path = Some content" and "load_campaign_store_snapshot files path = Some s"
  shows "list_all2 (\<lambda>line c. describes (map trim (split_on kCsvDelimiter line)) c)
    (data_lines 0 (getlines content)) (cs_campaigns s)"
  using load_lines_describes [of 0 "getlines content" empty_store s] assms
  by (auto simp: load_campaign_store_snapshot_def empty_store_def)

theorem loaded_campaigns_are_lines_witness:
  "\<exists>s. load_campaign_store_snapshot (\<lambda>_. Some sample_csv) ''f'' = Some s \<and> length (cs_campaigns s) = 1 \<and>
    list_all2 (\<lambda>line c. describes (map trim (split_on kCsvDelimiter line)) c)
      (data_lines 0 (getlines sample_csv)) (cs_campaigns s)"
proof -
  obtain s c where s: "load_campaign_store_snapshot (\<lambda>_. Some sample_csv) ''f'' = Some s"
    "cs_campaigns s = [c]" using sample_load by blast
  from loaded_campaigns_are_lines [OF refl this(1)] s show ?thesis by auto
qed

text \<open>
  C25. A list of creatives is accepted exactly when it names at least one and every nonempty
  token is a number; the records are then appended in order, all for the campaign's slot.
\<close>

theorem creative_list_accepted:
  assumes "length (creative_tokens val) < 2 ^ 32"
  shows "(fst (parse_creative_specs val key cs) \<longleftrightarrow>
      creative_tokens val \<noteq> [] \<and> list_all (\<lambda>t. parse_u64 t \<noteq> None) (creative_tokens val)) \<and>
    (if fst (parse_creative_specs val key cs)
     then fst (snd (parse_creative_specs val key cs)) = cs @ creative_records key (creative_tokens val)
     else True)"
  by (rule parse_creative_specs_iff [OF assms])

theorem creative_list_accepted_witness:
  "fst (parse_creative_specs ''101|102'' 9 []) \<and> \<not> fst (parse_creative_specs ''101| 102'' 9 [])"
proof -
  have t: "creative_tokens ''101|102'' = [''101'', ''102'']" "creative_tokens ''101| 102'' = [''101'', '' 102'']"
    by (simp_all add: creative_tokens_def kCreativeDelimiter_def)
  show ?thesis
    using creative_list_accepted [of "''101|102''" 9 "[]"] creative_list_accepted [of "''101| 102''" 9 "[]"]
    by (simp add: t parse_sample_numbers)
qed

end
