(* ===== verification/Rtb_Retrieve.thy ===== *)
theory Rtb_Retrieve
  imports Rtb_Store
begin

text \<open>
  Candidate retrieval: \<open>src/retrieve.cc\<close>. A read outside a vector is undefined behaviour in
  the source; the model returns \<open>None\<close> there. The main lemma says that on a well-formed store
  this never happens and that the indexed search returns exactly the campaigns a scan of the
  whole store would, in the order of the store, whichever of the two buckets is searched.
\<close>

section \<open>The code\<close>

definition campaign_creatives ::
  "CampaignStoreSnapshot \<Rightarrow> CampaignRecord \<Rightarrow> CreativeRecord list option" where
  "campaign_creatives campaign_store campaign =
    (let offset = unat (cr_creative_offset campaign); count = unat (cr_creative_count campaign) in
     if offset + count \<le> length (cs_creatives campaign_store)
     then Some (take count (drop offset (cs_creatives campaign_store))) else None)"

definition matches_request :: "RequestContext \<Rightarrow> CampaignRecord \<Rightarrow> bool" where
  "matches_request request_context campaign =
    (if \<not> cr_active campaign \<or>
        cr_country_key campaign \<noteq> rc_country_key request_context \<or>
        cr_device_type_key campaign \<noteq> rc_device_type_key request_context \<or>
        cr_ad_slot_key campaign \<noteq> rc_ad_slot_key request_context
     then False else True)"

definition choose_seed_bucket ::
  "CampaignStoreSnapshot \<Rightarrow> RequestContext \<Rightarrow> u32 list option" where
  "choose_seed_bucket campaign_store request_context =
    (case (cs_by_country campaign_store (rc_country_key request_context),
           cs_by_ad_slot campaign_store (rc_ad_slot_key request_context)) of
       (Some country, Some slot) \<Rightarrow>
         Some (if vec_size country \<le> vec_size slot then country else slot)
     | _ \<Rightarrow> None)"

fun collect_candidates ::
  "CampaignStoreSnapshot \<Rightarrow> RequestContext \<Rightarrow> u32 list \<Rightarrow> CampaignView list \<Rightarrow> CampaignView list option" where
  "collect_candidates store rc [] candidates = Some candidates"
| "collect_candidates store rc (campaign_index # rest) candidates =
    (if unat campaign_index \<ge> length (cs_campaigns store)
     then collect_candidates store rc rest candidates
     else
       let campaign = cs_campaigns store ! unat campaign_index in
       if \<not> matches_request rc campaign then collect_candidates store rc rest candidates
       else
         case campaign_creatives store campaign of
           None \<Rightarrow> None
         | Some creatives \<Rightarrow> collect_candidates store rc rest
             (candidates @ [\<lparr>vw_campaign = Some campaign, vw_creatives = creatives\<rparr>]))"

definition retrieve_candidates ::
  "CampaignStoreSnapshot \<Rightarrow> RequestContext \<Rightarrow> CampaignView list option" where
  "retrieve_candidates campaign_store request_context =
    (if \<not> is_eligible request_context then Some []
     else
       case choose_seed_bucket campaign_store request_context of
         None \<Rightarrow> Some []
       | Some seed_bucket \<Rightarrow> collect_candidates campaign_store request_context seed_bucket [])"

section \<open>The specification: a scan of the whole store\<close>

definition creatives_of :: "CampaignStoreSnapshot \<Rightarrow> CampaignRecord \<Rightarrow> CreativeRecord list" where
  "creatives_of s c =
    take (unat (cr_creative_count c)) (drop (unat (cr_creative_offset c)) (cs_creatives s))"

definition view_of :: "CampaignStoreSnapshot \<Rightarrow> CampaignRecord \<Rightarrow> CampaignView" where
  "view_of s c = \<lparr>vw_campaign = Some c, vw_creatives = creatives_of s c\<rparr>"

definition scan_candidates :: "CampaignStoreSnapshot \<Rightarrow> RequestContext \<Rightarrow> CampaignView list" where
  "scan_candidates s rc =
    (if is_eligible rc then map (view_of s) (filter (matches_request rc) (cs_campaigns s)) else [])"

section \<open>Searching through an index\<close>

text \<open>
  The interface an index over the campaigns offers to the search. \<open>covers\<close> is the set of
  predicates a search for the key may use: those that imply the key.
\<close>

locale campaign_index =
  fixes lookup :: "CampaignStoreSnapshot \<Rightarrow> 'k \<Rightarrow> u32 list option"
    and key_of :: "CampaignRecord \<Rightarrow> 'k"
    and wf :: "CampaignStoreSnapshot \<Rightarrow> bool"
  assumes lookup_bucket: "wf s \<Longrightarrow> lookup s k = bucket key_of (cs_campaigns s) k"
    and wf_size: "wf s \<Longrightarrow> length (cs_campaigns s) < 2 ^ 32"
begin

lemma lookup_missing:
  assumes "wf s" "lookup s k = None" "\<And>c. P c \<Longrightarrow> key_of c = k"
  shows "filter P (cs_campaigns s) = []"
proof -
  have "positions key_of (cs_campaigns s) k = []"
    using assms(1,2) by (simp add: lookup_bucket bucket_def split: if_splits)
  then have "\<forall>i < length (cs_campaigns s). key_of (cs_campaigns s ! i) \<noteq> k"
    by (auto simp: positions_def filter_empty_conv)
  then have "\<not> P c" if "c \<in> set (cs_campaigns s)" for c
    using assms(3) [of c] that by (metis in_set_conv_nth)
  then show ?thesis by (simp add: filter_empty_conv)
qed

lemma lookup_positions:
  assumes "wf s" "lookup s k = Some is"
  shows "map unat is = positions key_of (cs_campaigns s) k"
proof -
  have "is = map word_of_nat (positions key_of (cs_campaigns s) k)"
    using assms by (simp add: lookup_bucket bucket_def split: if_splits)
  moreover have "\<forall>i \<in> set (positions key_of (cs_campaigns s) k). i < 2 ^ 32"
    using wf_size [OF assms(1)] by (auto simp: positions_def)
  ultimately show ?thesis by (auto simp: unat_of_nat_u32 intro: map_idI)
qed

lemma bucket_search:
  assumes "wf s" "lookup s k = Some is" "\<And>c. P c \<Longrightarrow> key_of c = k"
  shows "map (\<lambda>i. cs_campaigns s ! unat i) (filter (\<lambda>i. P (cs_campaigns s ! unat i)) is) =
    filter P (cs_campaigns s)"
proof -
  let ?cs = "cs_campaigns s"
  have "map (\<lambda>i. ?cs ! unat i) (filter (\<lambda>i. P (?cs ! unat i)) is) =
      map ((!) ?cs) (filter (\<lambda>i. P (?cs ! i)) (map unat is))"
    by (simp add: filter_map comp_def)
  also have "filter (\<lambda>i. P (?cs ! i)) (map unat is) = filter (\<lambda>i. P (?cs ! i)) [0..<length ?cs]"
    unfolding lookup_positions [OF assms(1,2)] positions_def filter_filter
    by (rule filter_cong) (auto dest: assms(3))
  finally show ?thesis by (simp add: positions_map)
qed

lemma bucket_in_range:
  "wf s \<Longrightarrow> lookup s k = Some is \<Longrightarrow> \<forall>i \<in> set is. unat i < length (cs_campaigns s)"
  using lookup_positions [of s k "is"]
  by (metis (no_types, lifting) atLeastLessThan_iff filter_is_subset imageI in_mono list.set_map
      positions_def set_upt)

end

interpretation by_country: campaign_index cs_by_country cr_country_key store_wf
  by unfold_locales (auto simp: store_wf_def store_fits_def)

interpretation by_slot: campaign_index cs_by_ad_slot cr_ad_slot_key store_wf
  by unfold_locales (auto simp: store_wf_def store_fits_def)

section \<open>Retrieval implements the scan\<close>

lemma matches_request_iff:
  "matches_request rc c \<longleftrightarrow> cr_active c \<and> cr_country_key c = rc_country_key rc \<and>
    cr_device_type_key c = rc_device_type_key rc \<and> cr_ad_slot_key c = rc_ad_slot_key rc"
  by (simp add: matches_request_def)

lemma campaign_creatives_wf:
  "store_wf s \<Longrightarrow> c \<in> set (cs_campaigns s) \<Longrightarrow> campaign_creatives s c = Some (creatives_of s c)"
  by (auto simp: store_wf_def campaign_wf_def campaign_creatives_def creatives_of_def Let_def)

lemma collect_candidates_spec:
  assumes "store_wf s" "\<forall>i \<in> set is. unat i < length (cs_campaigns s)"
  shows "collect_candidates s rc is acc = Some (acc @
    map (\<lambda>i. view_of s (cs_campaigns s ! unat i))
      (filter (\<lambda>i. matches_request rc (cs_campaigns s ! unat i)) is))"
  using assms(2)
proof (induction "is" arbitrary: acc)
  case (Cons i "is")
  then have "cs_campaigns s ! unat i \<in> set (cs_campaigns s)" by simp
  from campaign_creatives_wf [OF assms(1) this] Cons show ?case
    by (simp add: Let_def view_of_def)
qed simp

theorem retrieve_scan:
  assumes wf: "store_wf s"
  shows "retrieve_candidates s rc = Some (scan_candidates s rc)"
proof (cases "is_eligible rc")
  case True
  let ?k = "rc_country_key rc" and ?a = "rc_ad_slot_key rc" and ?P = "matches_request rc"
  have P: "?P c \<Longrightarrow> cr_country_key c = ?k" "?P c \<Longrightarrow> cr_ad_slot_key c = ?a" for c
    by (simp_all add: matches_request_iff)
  show ?thesis
  proof (cases "choose_seed_bucket s rc")
    case None
    then have "cs_by_country s ?k = None \<or> cs_by_ad_slot s ?a = None"
      by (auto simp: choose_seed_bucket_def split: option.splits)
    then have "filter ?P (cs_campaigns s) = []"
      using by_country.lookup_missing [OF wf _ P(1)] by_slot.lookup_missing [OF wf _ P(2)] by blast
    then show ?thesis using None by (simp add: retrieve_candidates_def scan_candidates_def)
  next
    case (Some "is")
    then have "cs_by_country s ?k = Some is \<or> cs_by_ad_slot s ?a = Some is"
      by (auto simp: choose_seed_bucket_def split: option.splits if_splits)
    then have range: "\<forall>i \<in> set is. unat i < length (cs_campaigns s)"
      and search: "map (\<lambda>i. cs_campaigns s ! unat i) (filter (\<lambda>i. ?P (cs_campaigns s ! unat i)) is) =
        filter ?P (cs_campaigns s)"
      using by_country.bucket_in_range [OF wf] by_slot.bucket_in_range [OF wf]
        by_country.bucket_search [OF wf _ P(1)] by_slot.bucket_search [OF wf _ P(2)] by blast+
    have "map (\<lambda>i. view_of s (cs_campaigns s ! unat i)) (filter (\<lambda>i. ?P (cs_campaigns s ! unat i)) is) =
        map (view_of s) (filter ?P (cs_campaigns s))"
      by (simp add: search [symmetric])
    then show ?thesis
      using Some True collect_candidates_spec [OF wf range]
      by (simp add: retrieve_candidates_def scan_candidates_def)
  qed
qed (auto simp: retrieve_candidates_def scan_candidates_def)

text \<open>The two buckets are searched to the same result: the choice is only about work.\<close>

lemma scan_candidate_props:
  assumes "store_wf s" "v \<in> set (scan_candidates s rc)"
  shows "\<exists>c \<in> set (cs_campaigns s). vw_campaign v = Some c \<and> matches_request rc c \<and>
    vw_creatives v = creatives_of s c \<and> creatives_of s c \<noteq> [] \<and>
    (\<forall>cv \<in> set (creatives_of s c). cv \<in> set (cs_creatives s) \<and> cv_ad_slot_key cv = rc_ad_slot_key rc)"
proof -
  from assms(2) obtain c where c: "c \<in> set (cs_campaigns s)" "matches_request rc c" "v = view_of s c"
    by (auto simp: scan_candidates_def split: if_splits)
  then have "campaign_wf (cs_creatives s) c" using assms(1) by (simp add: store_wf_def)
  then show ?thesis
    using c by (intro bexI [of _ c])
      (auto simp: view_of_def creatives_of_def campaign_wf_def matches_request_iff
        dest!: in_set_takeD in_set_dropD)
qed

section \<open>Properties\<close>

text \<open>
  C6. Retrieval through the shorter of the two index buckets equals a scan of the whole store:
  on any store that was loaded from a file, it returns the matching campaigns, all of them,
  once each and in file order, each with its own creatives, and no access is out of range.
\<close>

theorem retrieval_equals_scan:
  assumes "load_campaign_store_snapshot files path = Some s" and "store_fits s"
  shows "retrieve_candidates s rc = Some (if is_eligible rc
      then map (\<lambda>c. \<lparr>vw_campaign = Some c, vw_creatives = creatives_of s c\<rparr>)
        (filter (matches_request rc) (cs_campaigns s)) else [])"
  using retrieve_scan [OF load_store_wf [OF assms]]
  by (simp add: scan_candidates_def view_of_def [abs_def] del: is_eligible_iff)

theorem retrieval_equals_scan_witness:
  "\<exists>s c. load_campaign_store_snapshot (\<lambda>_. Some sample_csv) ''f'' = Some s \<and> cs_campaigns s = [c] \<and>
    cr_active c \<and> retrieve_candidates s
      \<lparr>rc_request_id = ''r1'', rc_country_key = cr_country_key c, rc_device_type_key = cr_device_type_key c,
       rc_ad_slot_key = cr_ad_slot_key c, rc_auction_type = AT_FirstPrice, rc_received_at_ns = 1,
       rc_deadline_ns = 2, rc_processing_status = RP_Ok, rc_no_bid_reason = NB_None\<rparr> =
    Some [\<lparr>vw_campaign = Some c, vw_creatives = creatives_of s c\<rparr>]"
proof -
  obtain s c where s: "load_campaign_store_snapshot (\<lambda>_. Some sample_csv) ''f'' = Some s"
    and c: "cs_campaigns s = [c]" "length (cs_creatives s) = 2" "cr_active c" using sample_load by blast
  have fits: "store_fits s" using c by (simp add: store_fits_def)
  have "matches_request
      \<lparr>rc_request_id = ''r1'', rc_country_key = cr_country_key c, rc_device_type_key = cr_device_type_key c,
       rc_ad_slot_key = cr_ad_slot_key c, rc_auction_type = AT_FirstPrice, rc_received_at_ns = 1,
       rc_deadline_ns = 2, rc_processing_status = RP_Ok, rc_no_bid_reason = NB_None\<rparr> c"
    using c by (simp add: matches_request_iff)
  then show ?thesis
    using s c retrieval_equals_scan [OF s fits] by auto
qed

end
