(* ===== verification/Rtb_Rng.thy ===== *)
theory Rtb_Rng
  imports Rtb_Prelude Rtb_Float
begin

text \<open>
  \<open>WorkerRng\<close> of \<open>include/rtb/runtime_types.h\<close>: a xorshift generator with a 64 bit state.
  An operation returns the drawn value and the new generator. The lemmas show that the zero
  state is never entered, that the zero test of \<open>next_u64\<close> never fires for a seeded
  generator, that the state transition is a permutation (so no state is ever lost and the
  sequence is purely periodic), and the ranges of the derived draws.
\<close>

section \<open>The generator\<close>

record WorkerRng =
  rng_state :: u64

definition default_rng :: WorkerRng where
  "default_rng = \<lparr>rng_state = 1\<rparr>"

definition seed :: "WorkerRng \<Rightarrow> u64 \<Rightarrow> WorkerRng" where
  "seed r seed_value = r\<lparr>rng_state := (if seed_value = 0 then 1 else seed_value)\<rparr>"

definition next_u64 :: "WorkerRng \<Rightarrow> u64 \<times> WorkerRng" where
  "next_u64 r =
    (let value = rng_state r;
         value = value XOR push_bit 13 value;
         value = value XOR drop_bit 7 value;
         value = value XOR push_bit 17 value;
         s = (if value = 0 then 1 else value)
     in (s, r\<lparr>rng_state := s\<rparr>))"

definition kScale :: f64 where
  "kScale = f64_div 1 (f64_of_rat (of_nat (unat (push_bit 53 1 :: u64))))"

definition next_unit_double :: "WorkerRng \<Rightarrow> f64 \<times> WorkerRng" where
  "next_unit_double r =
    (let (v, r') = next_u64 r
     in (f64_mul (f64_of_rat (of_nat (unat (drop_bit 11 v)))) kScale, r'))"

definition uniform_index :: "WorkerRng \<Rightarrow> u64 \<Rightarrow> u64 \<times> WorkerRng" where
  "uniform_index r upper_bound =
    (if upper_bound = 0 then (0, r)
     else let (v, r') = next_u64 r in (v mod upper_bound, r'))"

section \<open>The transition is a permutation of the non-zero states\<close>

definition xor_left :: "nat \<Rightarrow> u64 \<Rightarrow> u64" where "xor_left k x = x XOR push_bit k x"
definition xor_right :: "nat \<Rightarrow> u64 \<Rightarrow> u64" where "xor_right k x = x XOR drop_bit k x"

definition xorshift :: "u64 \<Rightarrow> u64" where
  "xorshift x = xor_left 17 (xor_right 7 (xor_left 13 x))"

lemma next_u64_eq:
  "next_u64 r = (let v = xorshift (rng_state r); s = (if v = 0 then 1 else v)
     in (s, r\<lparr>rng_state := s\<rparr>))"
  by (simp add: next_u64_def xorshift_def xor_left_def xor_right_def Let_def)

lemma bit_u64_big: "64 \<le> n \<Longrightarrow> \<not> bit (w :: u64) n"
  using bit_imp_le_length [of w n] by auto

lemma xor_left_zero:
  assumes "0 < k" "xor_left k x = 0"
  shows "x = 0"
proof -
  have eq: "bit x n = bit (push_bit k x) n" for n
  proof -
    have "bit (xor_left k x) n = bit (0 :: u64) n" using assms(2) by simp
    then show ?thesis by (simp add: xor_left_def bit_xor_iff)
  qed
  have "\<not> bit x n" for n
  proof (induction n rule: less_induct)
    case (less n)
    then show ?case
      using eq [of n] assms(1) by (auto simp: bit_push_bit_iff)
  qed
  then show ?thesis by (simp add: bit_eq_iff)
qed

lemma xor_right_zero:
  assumes "0 < k" "xor_right k x = 0"
  shows "x = 0"
proof -
  have eq: "bit x n = bit x (k + n)" for n
  proof -
    have "bit (xor_right k x) n = bit (0 :: u64) n" using assms(2) by simp
    then show ?thesis by (simp add: xor_right_def bit_xor_iff bit_drop_bit_eq)
  qed
  have "\<not> bit x n" for n
  proof (induction "64 - n" arbitrary: n rule: less_induct)
    case less
    show ?case
    proof (cases "64 \<le> n")
      case True
      then show ?thesis by (rule bit_u64_big)
    next
      case False
      then have "64 - (k + n) < 64 - n" using assms(1) by simp
      from less [OF this] show ?thesis using eq [of n] by simp
    qed
  qed
  then show ?thesis by (simp add: bit_eq_iff)
qed

lemma xor_left_xor: "xor_left k x XOR xor_left k y = xor_left k (x XOR y)"
  by (rule bit_word_eqI) (auto simp: xor_left_def bit_simps)

lemma xor_right_xor: "xor_right k x XOR xor_right k y = xor_right k (x XOR y)"
  by (rule bit_word_eqI) (auto simp: xor_right_def bit_simps)

lemma xor_eq_0: "x XOR y = 0 \<longleftrightarrow> x = (y :: u64)"
  by (auto simp: bit_eq_iff bit_xor_iff)

lemma inj_xor_left: "0 < k \<Longrightarrow> inj (xor_left k)"
proof (rule injI)
  fix x y assume "0 < k" "xor_left k x = xor_left k y"
  then show "x = y"
    using xor_left_xor [of k x y] xor_left_zero [of k "x XOR y"] by (simp add: xor_eq_0)
qed

lemma inj_xor_right: "0 < k \<Longrightarrow> inj (xor_right k)"
proof (rule injI)
  fix x y assume "0 < k" "xor_right k x = xor_right k y"
  then show "x = y"
    using xor_right_xor [of k x y] xor_right_zero [of k "x XOR y"] by (simp add: xor_eq_0)
qed

lemma inj_xorshift: "inj xorshift"
proof -
  have "inj (xor_left 17 \<circ> (xor_right 7 \<circ> xor_left 13))"
    by (intro inj_compose inj_xor_left inj_xor_right) simp_all
  then show ?thesis by (simp add: xorshift_def [abs_def] comp_def)
qed

lemma xorshift_0_iff: "xorshift x = 0 \<longleftrightarrow> x = 0"
proof -
  have "xorshift 0 = 0" by (simp add: xorshift_def xor_left_def xor_right_def)
  then show ?thesis using inj_xorshift by (metis injD)
qed

lemma next_u64_nonzero:
  "rng_state r \<noteq> 0 \<Longrightarrow>
    next_u64 r = (xorshift (rng_state r), r\<lparr>rng_state := xorshift (rng_state r)\<rparr>)"
  by (simp add: next_u64_eq Let_def xorshift_0_iff)

section \<open>The invariant of the generator\<close>

definition rng_wf :: "WorkerRng \<Rightarrow> bool" where
  "rng_wf r \<longleftrightarrow> rng_state r \<noteq> 0"

lemma seed_wf [wf_intros]: "rng_wf (seed r v)"
  by (simp add: rng_wf_def seed_def)

lemma default_rng_wf [wf_intros]: "rng_wf default_rng"
  by (simp add: rng_wf_def default_rng_def)

lemma next_u64_wf: "next_u64 r = (v, r') \<Longrightarrow> rng_wf r' \<and> v = rng_state r' \<and> v \<noteq> 0"
  by (auto simp: next_u64_eq rng_wf_def Let_def split: if_splits)

lemma uniform_index_wf: "rng_wf r \<Longrightarrow> uniform_index r n = (i, r') \<Longrightarrow> rng_wf r'"
  by (auto simp: uniform_index_def dest: next_u64_wf split: if_splits prod.splits)

lemma next_unit_double_wf: "next_unit_double r = (d, r') \<Longrightarrow> rng_wf r'"
  by (auto simp: next_unit_double_def dest: next_u64_wf split: prod.splits)

datatype rng_op = Draw_Seed u64 | Draw_U64 | Draw_Unit | Draw_Index u64

fun rng_step :: "WorkerRng \<Rightarrow> rng_op \<Rightarrow> WorkerRng" where
  "rng_step r (Draw_Seed v) = seed r v"
| "rng_step r Draw_U64 = snd (next_u64 r)"
| "rng_step r Draw_Unit = snd (next_unit_double r)"
| "rng_step r (Draw_Index n) = snd (uniform_index r n)"

interpretation rng: invariant_component rng_step "\<lambda>_ _. True" rng_wf
proof unfold_locales
  fix r e assume "rng_wf r"
  then show "rng_wf (rng_step r e)"
    by (cases e) (auto simp: wf_intros
        intro: next_u64_wf [OF prod.collapse [symmetric], THEN conjunct1]
          next_unit_double_wf [OF prod.collapse [symmetric]]
          uniform_index_wf [OF _ prod.collapse [symmetric]])
qed

section \<open>Ranges of the draws\<close>

lemma kScale_eq: "kScale = 1 / 2 ^ 53"
proof -
  have "unat (push_bit 53 1 :: u64) = 9007199254740992" by (simp add: push_bit_eq_mult)
  moreover have "f64_div 1 (f64_of_rat 9007199254740992) = 1 / 2 ^ 53" by code_simp
  ultimately show ?thesis by (simp only: kScale_def of_nat_numeral)
qed

lemma drop_11_bound: "unat (drop_bit 11 (v :: u64)) < 2 ^ 53"
proof -
  have "unat v < 2 ^ 64" using unsigned_less [of v] by simp
  then show ?thesis
    by (simp only: unat_drop_bit_eq) (simp add: drop_bit_eq_div less_mult_imp_div_less)
qed

lemma f64_scaled_exact:
  assumes "n < 2 ^ 53"
  shows "f64_of_rat (of_nat n / 2 ^ 53) = of_nat n / 2 ^ 53"
proof -
  have "int n < 2 ^ 53" using assms by simp
  have pow: "(2::rat) powi (-53) = 1 / 2 ^ 53"
    by (simp only: power_int_minus_divide power_int_numeral)
  show ?thesis
    using round_to_exact [of 53 "int n" "-1074" "-53"] \<open>int n < 2 ^ 53\<close>
    unfolding f64_of_rat_def pow by simp
qed

text \<open>Both the conversion to \<open>double\<close> and the scaling are exact.\<close>

definition unit_of :: "u64 \<Rightarrow> rat" where
  "unit_of v = of_nat (unat (drop_bit 11 v)) / 2 ^ 53"

lemma next_unit_double_eq:
  "next_unit_double r = (let (v, r') = next_u64 r in (unit_of v, r'))"
proof -
  have "f64_mul (f64_of_rat (of_nat (unat (drop_bit 11 v)))) kScale = unit_of v" for v :: u64
    using f64_scaled_exact [OF drop_11_bound [of v]]
    by (simp only: f64_mul_def f64_of_nat_exact [OF drop_11_bound] kScale_eq unit_of_def
        times_divide_eq_right mult_1_right)
  then show ?thesis by (simp only: next_unit_double_def)
qed

lemma unit_of_range: "0 \<le> unit_of v" "unit_of v \<le> 1 - 1 / 2 ^ 53"
proof -
  have "unat (drop_bit 11 v) \<le> 2 ^ 53 - 1" using drop_11_bound [of v] by simp
  then have "(of_nat (unat (drop_bit 11 v)) :: rat) \<le> of_nat (2 ^ 53 - 1)"
    by (rule of_nat_mono)
  then show "unit_of v \<le> 1 - 1 / 2 ^ 53"
    unfolding unit_of_def by (simp add: field_simps)
  show "0 \<le> unit_of v"
    unfolding unit_of_def by (intro divide_nonneg_nonneg of_nat_0_le_iff) simp
qed

lemma next_unit_double_range:
  "next_unit_double r = (d, r') \<Longrightarrow> 0 \<le> d \<and> d \<le> 1 - 1 / 2 ^ 53"
  using unit_of_range by (auto simp: next_unit_double_eq split: prod.splits)

lemma uniform_index_range: "n \<noteq> 0 \<Longrightarrow> uniform_index r n = (i, r') \<Longrightarrow> unat i < unat n"
  by (auto simp: uniform_index_def unat_mod unat_gt_0 split: prod.splits)

section \<open>Properties\<close>

text \<open>
  C29. One step of the generator permutes the nonzero states: from nonzero states it yields
  equal numbers exactly from equal states, the number is the new state, it is never zero, so
  the guard against a zero state in the code never has to act.
\<close>

theorem generator_step_permutes:
  assumes "rng_wf r" and "rng_wf s"
  shows "(fst (next_u64 r) = fst (next_u64 s) \<longleftrightarrow> rng_state r = rng_state s) \<and>
    fst (next_u64 r) = xorshift (rng_state r) \<and> fst (next_u64 r) \<noteq> 0 \<and>
    rng_state (snd (next_u64 r)) = fst (next_u64 r)"
  using assms inj_xorshift xorshift_0_iff
  by (auto simp: rng_wf_def next_u64_nonzero inj_def)

theorem generator_step_permutes_witness: "fst (next_u64 default_rng) \<noteq> 0"
  using generator_step_permutes [OF default_rng_wf default_rng_wf] by blast

text \<open>
  C30. What is drawn from the generator is in range, in any of its states: a unit double is at
  least zero and at most \<open>1 - 2 ^ -53\<close>, so below one, and a random index is within a nonempty
  container.
\<close>

theorem generator_ranges:
  "0 \<le> fst (next_unit_double r) \<and> fst (next_unit_double r) \<le> 1 - 1 / 2 ^ 53 \<and>
    (n = 0 \<or> unat (fst (uniform_index r n)) < unat n)"
  using next_unit_double_range [of r] uniform_index_range [of n r] by (metis prod.collapse)

end
