(* ===== verification/Rtb_Decision.thy ===== *)
theory Rtb_Decision
  imports Rtb_Retrieve Rtb_Rng
begin

text \<open>
  The bid decision: \<open>src/decision.cc\<close>. Every candidate with a creative draws a creative and
  a price from the worker's generator; the first highest price wins. The running maximum
  starts at minus infinity, which is \<open>None\<close> in the model. The specification \<open>offers\<close> lists
  the offers in order with the generator state each leaves; the lemmas show that the decision
  is the first offer of highest price, that every price lies between the configured bounds
  after rounding, and that indexing the creatives never leaves the vector.
\<close>

section \<open>The code\<close>

text \<open>\<open>creatives[i]\<close> is undefined behaviour out of range; the result is \<open>None\<close> there too.\<close>

definition choose_random_creative ::
  "CreativeRecord list \<Rightarrow> WorkerRng \<Rightarrow> CreativeRecord option \<times> WorkerRng" where
  "choose_random_creative creatives rng =
    (if creatives = [] then (None, rng)
     else
       let (i, rng') = uniform_index rng (vec_size creatives) in
       (if unat i < length creatives then Some (creatives ! unat i) else None, rng'))"

definition generate_bid_price :: "WorkerRng \<Rightarrow> f64 \<times> WorkerRng" where
  "generate_bid_price rng =
    (let (unit, rng') = next_unit_double rng in
     (f64_add kMinBidPrice (f64_mul unit (f64_sub kMaxBidPrice kMinBidPrice)), rng'))"

text \<open>\<open>bid_price <= best_bid_price\<close>, where the best price may be minus infinity.\<close>

definition not_better :: "f64 \<Rightarrow> f64 option \<Rightarrow> bool" where
  "not_better bid_price best = (case best of None \<Rightarrow> False | Some b \<Rightarrow> bid_price \<le> b)"

fun decide_loop ::
  "CampaignView list \<Rightarrow> WorkerRng \<Rightarrow> BidDecision \<Rightarrow> f64 option \<Rightarrow> BidDecision \<times> WorkerRng" where
  "decide_loop [] rng best_decision best_bid_price = (best_decision, rng)"
| "decide_loop (candidate # rest) rng best_decision best_bid_price =
    (case vw_campaign candidate of
       None \<Rightarrow> decide_loop rest rng best_decision best_bid_price
     | Some campaign \<Rightarrow>
         let (creative, rng) = choose_random_creative (vw_creatives candidate) rng in
         case creative of
           None \<Rightarrow> decide_loop rest rng best_decision best_bid_price
         | Some creative \<Rightarrow>
             let (bid_price, rng) = generate_bid_price rng in
             if not_better bid_price best_bid_price
             then decide_loop rest rng best_decision best_bid_price
             else decide_loop rest rng
               \<lparr>bd_has_bid = True, bd_no_bid_reason = NB_None,
                bd_campaign_id = cr_campaign_id campaign,
                bd_creative_id = cv_creative_id creative,
                bd_model_score = 0, bd_bid_price = bid_price\<rparr>
               (Some bid_price))"

definition make_bid_decision ::
  "RequestContext \<Rightarrow> CampaignView list \<Rightarrow> WorkerRng \<Rightarrow> BidDecision \<times> WorkerRng" where
  "make_bid_decision request_context candidates rng =
    (if \<not> is_eligible request_context then (no_bid (rc_no_bid_reason request_context), rng)
     else if candidates = [] then (no_bid NB_NoEligibleCampaign, rng)
     else decide_loop candidates rng (no_bid NB_NoEligibleCampaign) None)"

section \<open>Prices\<close>

lemma min_price_eq: "kMinBidPrice = 3602879701896397 / 72057594037927936"
  unfolding kMinBidPrice_def by code_simp

lemma max_price_eq: "kMaxBidPrice = 5"
  unfolding kMaxBidPrice_def by code_simp

lemma price_span_eq: "f64_sub kMaxBidPrice kMinBidPrice = 5573204538870989 / 1125899906842624"
  unfolding max_price_eq min_price_eq by code_simp

lemma price_rounding:
  "f64_of_rat (5573204538870989 / 1125899906842624) = 5573204538870989 / 1125899906842624"
  "f64_of_rat (3602879701896397 / 72057594037927936) = 3602879701896397 / 72057594037927936"
  "f64_of_rat (3602879701896397 / 72057594037927936 + 5573204538870989 / 1125899906842624) = 5"
  by code_simp+

lemma price_between:
  assumes "0 \<le> u" "u \<le> 1"
  shows "kMinBidPrice \<le> f64_add kMinBidPrice (f64_mul u (f64_sub kMaxBidPrice kMinBidPrice))"
    and "f64_add kMinBidPrice (f64_mul u (f64_sub kMaxBidPrice kMinBidPrice)) \<le> kMaxBidPrice"
proof -
  define span where "span = f64_sub kMaxBidPrice kMinBidPrice"
  have pos: "0 \<le> span" "0 \<le> kMinBidPrice"
    unfolding span_def price_span_eq unfolding min_price_eq by simp_all
  have x0: "0 \<le> f64_mul u span"
    using assms pos by (simp add: f64_mul_def f64_of_rat_nonneg)
  have "f64_mul u span \<le> f64_of_rat span"
    using assms pos unfolding f64_mul_def by (intro f64_of_rat_mono mult_left_le_one_le) auto
  then have x1: "f64_mul u span \<le> span" by (simp add: span_def price_span_eq price_rounding)
  have "f64_of_rat kMinBidPrice \<le> f64_add kMinBidPrice (f64_mul u span)"
    using x0 pos unfolding f64_add_def by (intro f64_of_rat_mono) auto
  moreover have "f64_add kMinBidPrice (f64_mul u span) \<le> f64_of_rat (kMinBidPrice + span)"
    using x0 x1 pos unfolding f64_add_def by (intro f64_of_rat_mono) auto
  moreover have "f64_of_rat kMinBidPrice = kMinBidPrice" "f64_of_rat (kMinBidPrice + span) = kMaxBidPrice"
    unfolding span_def price_span_eq unfolding min_price_eq max_price_eq by (rule price_rounding)+
  ultimately show "kMinBidPrice \<le> f64_add kMinBidPrice (f64_mul u (f64_sub kMaxBidPrice kMinBidPrice))"
    "f64_add kMinBidPrice (f64_mul u (f64_sub kMaxBidPrice kMinBidPrice)) \<le> kMaxBidPrice"
    by (simp_all add: span_def [symmetric])
qed

lemma generate_bid_price_range:
  "generate_bid_price r = (p, r') \<Longrightarrow> kMinBidPrice \<le> p \<and> p \<le> kMaxBidPrice"
proof -
  assume "generate_bid_price r = (p, r')"
  then obtain u where u: "next_unit_double r = (u, r')"
    and p: "p = f64_add kMinBidPrice (f64_mul u (f64_sub kMaxBidPrice kMinBidPrice))"
    by (auto simp: generate_bid_price_def split: prod.splits)
  from next_unit_double_range [OF u] have "0 \<le> u" "u \<le> 1" by simp_all
  then show ?thesis using price_between p by blast
qed

lemma generate_bid_price_wf: "generate_bid_price r = (p, r') \<Longrightarrow> rng_wf r'"
  by (auto simp: generate_bid_price_def dest: next_unit_double_wf split: prod.splits)

section \<open>Creatives\<close>

lemma choose_random_creative_spec:
  assumes "length creatives < max_vec" "creatives \<noteq> []"
  shows "\<exists>i r'. i < length creatives \<and> choose_random_creative creatives r = (Some (creatives ! i), r')"
proof -
  obtain i r' where ir: "uniform_index r (vec_size creatives) = (i, r')" by fastforce
  have "unat (vec_size creatives) \<noteq> 0" using assms by (simp add: unat_vec_size)
  then have "vec_size creatives \<noteq> 0" by auto
  from uniform_index_range [OF this ir] have "unat i < length creatives"
    using assms by (simp add: unat_vec_size)
  then show ?thesis
    using assms ir by (auto simp: choose_random_creative_def)
qed

lemma choose_random_creative_wf:
  "rng_wf r \<Longrightarrow> choose_random_creative cs r = (c, r') \<Longrightarrow> rng_wf r'"
  by (auto simp: choose_random_creative_def dest: uniform_index_wf split: if_splits prod.splits)

section \<open>The specification: the offers, and the first best of them\<close>

definition offer_of :: "CampaignRecord \<Rightarrow> CreativeRecord \<Rightarrow> f64 \<Rightarrow> BidDecision" where
  "offer_of c cv p =
    \<lparr>bd_has_bid = True, bd_no_bid_reason = NB_None, bd_campaign_id = cr_campaign_id c,
     bd_creative_id = cv_creative_id cv, bd_model_score = 0, bd_bid_price = p\<rparr>"

fun offers :: "CampaignView list \<Rightarrow> WorkerRng \<Rightarrow> BidDecision list \<times> WorkerRng" where
  "offers [] r = ([], r)"
| "offers (v # vs) r =
    (case vw_campaign v of
       None \<Rightarrow> offers vs r
     | Some c \<Rightarrow>
         (case choose_random_creative (vw_creatives v) r of
            (None, r1) \<Rightarrow> offers vs r1
          | (Some cv, r1) \<Rightarrow>
              let (p, r2) = generate_bid_price r1; (ds, r3) = offers vs r2
              in (offer_of c cv p # ds, r3)))"

text \<open>The first element of highest price of \<open>d # ds\<close>.\<close>

fun first_best :: "BidDecision \<Rightarrow> BidDecision list \<Rightarrow> BidDecision" where
  "first_best d [] = d"
| "first_best d (e # ds) = first_best (if bd_bid_price e \<le> bd_bid_price d then d else e) ds"

definition best_of :: "BidDecision list \<Rightarrow> BidDecision" where
  "best_of ds = (case ds of [] \<Rightarrow> no_bid NB_NoEligibleCampaign | e # es \<Rightarrow> first_best e es)"

lemma first_best_snoc:
  "first_best d (ds @ [e]) =
    (if bd_bid_price e \<le> bd_bid_price (first_best d ds) then first_best d ds else e)"
  by (induction ds arbitrary: d) auto

definition is_first_max :: "BidDecision list \<Rightarrow> nat \<Rightarrow> bool" where
  "is_first_max ds k \<longleftrightarrow> k < length ds \<and>
    (\<forall>j < length ds. bd_bid_price (ds ! j) \<le> bd_bid_price (ds ! k)) \<and>
    (\<forall>j < k. bd_bid_price (ds ! j) < bd_bid_price (ds ! k))"

lemma is_first_max_snoc:
  assumes "is_first_max ds k"
  shows "if bd_bid_price e \<le> bd_bid_price (ds ! k) then is_first_max (ds @ [e]) k
    else is_first_max (ds @ [e]) (length ds)"
  using assms
  by (auto simp: is_first_max_def nth_append not_le less_Suc_eq intro: le_less_trans less_imp_le)

lemma first_best_first: "\<exists>k. is_first_max (d # ds) k \<and> first_best d ds = (d # ds) ! k"
proof (induction ds rule: rev_induct)
  case Nil
  then show ?case by (intro exI [of _ 0]) (simp add: is_first_max_def)
next
  case (snoc e ds)
  then obtain k where k: "is_first_max (d # ds) k" "first_best d ds = (d # ds) ! k" by blast
  then have "k < Suc (length ds)" by (simp add: is_first_max_def)
  then have nth: "(d # ds @ [e]) ! k = (d # ds) ! k" "(d # ds @ [e]) ! length (d # ds) = e"
    by (simp_all add: nth_append flip: append_Cons)
  show ?case
  proof (cases "bd_bid_price e \<le> bd_bid_price ((d # ds) ! k)")
    case True
    then show ?thesis
      using is_first_max_snoc [OF k(1), of e] k(2) nth(1)
      by (intro exI [of _ k]) (simp add: first_best_snoc)
  next
    case False
    then show ?thesis
      using is_first_max_snoc [OF k(1), of e] k(2) nth(2)
      by (intro exI [of _ "length (d # ds)"]) (simp add: first_best_snoc)
  qed
qed

lemma best_of_first: "ds \<noteq> [] \<Longrightarrow> \<exists>k. is_first_max ds k \<and> best_of ds = ds ! k"
  using first_best_first by (cases ds) (auto simp: best_of_def)

section \<open>The decision is the first best offer\<close>

text \<open>The state of the loop: what is best so far and its price.\<close>

lemma decide_loop_some:
  "decide_loop vs r d (Some (bd_bid_price d)) =
    (first_best d (fst (offers vs r)), snd (offers vs r))"
proof (induction vs arbitrary: r d)
  case (Cons v vs)
  show ?case
  proof (cases "vw_campaign v")
    case (Some c)
    obtain o1 r1 where c1: "choose_random_creative (vw_creatives v) r = (o1, r1)" by fastforce
    show ?thesis
    proof (cases o1)
      case o1: (Some cv)
      obtain p r2 where p: "generate_bid_price r1 = (p, r2)" by fastforce
      have "bd_bid_price (offer_of c cv p) = p" by (simp add: offer_of_def)
      with Cons [of r2 "offer_of c cv p"] Cons [of r2 d] show ?thesis
        by (simp add: Some c1 o1 p not_better_def split: prod.splits) (simp add: offer_of_def)
    qed (use Some c1 Cons in simp)
  qed (use Cons in simp)
qed simp

lemma decide_loop_none:
  "decide_loop vs r (no_bid NB_NoEligibleCampaign) None =
    (best_of (fst (offers vs r)), snd (offers vs r))"
proof (induction vs arbitrary: r)
  case (Cons v vs)
  show ?case
  proof (cases "vw_campaign v")
    case (Some c)
    obtain o1 r1 where c1: "choose_random_creative (vw_creatives v) r = (o1, r1)" by fastforce
    show ?thesis
    proof (cases o1)
      case o1: (Some cv)
      obtain p r2 where p: "generate_bid_price r1 = (p, r2)" by fastforce
      have "bd_bid_price (offer_of c cv p) = p" by (simp add: offer_of_def)
      with decide_loop_some [of vs r2 "offer_of c cv p"] show ?thesis
        by (simp add: Some c1 o1 p not_better_def best_of_def split: prod.splits)
           (simp add: offer_of_def)
    qed (use Some c1 Cons in simp)
  qed (use Cons in simp)
qed (simp add: best_of_def)

lemma make_bid_decision_offers:
  "is_eligible rc \<Longrightarrow>
    make_bid_decision rc vs r = (best_of (fst (offers vs r)), snd (offers vs r))"
  by (cases "vs = []") (simp_all add: make_bid_decision_def decide_loop_none best_of_def)

lemma make_bid_decision_ineligible:
  "\<not> is_eligible rc \<Longrightarrow> make_bid_decision rc vs r = (no_bid (rc_no_bid_reason rc), r)"
  by (simp add: make_bid_decision_def)

text \<open>Candidates that can make an offer.\<close>

definition biddable :: "CampaignView \<Rightarrow> bool" where
  "biddable v \<longleftrightarrow> valid v \<and> vw_creatives v \<noteq> []"

text \<open>An offer names a candidate, one of its creatives, and a price within the bounds.\<close>

definition sound_offer :: "CampaignView list \<Rightarrow> BidDecision \<Rightarrow> bool" where
  "sound_offer vs d \<longleftrightarrow>
    (\<exists>v \<in> set vs. \<exists>c cv. vw_campaign v = Some c \<and> cv \<in> set (vw_creatives v) \<and>
      d = offer_of c cv (bd_bid_price d)) \<and>
    kMinBidPrice \<le> bd_bid_price d \<and> bd_bid_price d \<le> kMaxBidPrice"

lemma sound_offer_mono: "sound_offer vs d \<Longrightarrow> set vs \<subseteq> set ws \<Longrightarrow> sound_offer ws d"
  unfolding sound_offer_def by blast

definition views_fit :: "CampaignView list \<Rightarrow> bool" where
  "views_fit vs \<longleftrightarrow> (\<forall>v \<in> set vs. length (vw_creatives v) < max_vec)"

lemma offers_spec:
  "views_fit vs \<Longrightarrow> length (fst (offers vs r)) = length (filter biddable vs) \<and>
    (\<forall>d \<in> set (fst (offers vs r)). sound_offer vs d)"
proof (induction vs arbitrary: r)
  case (Cons v vs)
  have fit: "views_fit vs" "length (vw_creatives v) < max_vec"
    using Cons.prems by (auto simp: views_fit_def)
  have len: "length (fst (offers vs s)) = length (filter biddable vs)" for s
    using Cons.IH [OF fit(1)] by blast
  have tail: "\<forall>d \<in> set (fst (offers vs s)). sound_offer (v # vs) d" for s
    using Cons.IH [OF fit(1), of s] by (auto intro: sound_offer_mono)
  consider "vw_campaign v = None" | c where "vw_campaign v = Some c" "vw_creatives v = []"
    | c where "vw_campaign v = Some c" "vw_creatives v \<noteq> []" by fastforce
  then show ?case
  proof cases
    case 1
    then have "\<not> biddable v" by (simp add: biddable_def valid_def)
    with 1 show ?thesis using len tail by simp
  next
    case 2
    then have "\<not> biddable v" by (simp add: biddable_def)
    with 2 show ?thesis using len tail by (simp add: choose_random_creative_def)
  next
    case 3
    obtain i r1 where i: "i < length (vw_creatives v)"
      "choose_random_creative (vw_creatives v) r = (Some (vw_creatives v ! i), r1)"
      using choose_random_creative_spec [OF fit(2) 3(2)] by blast
    obtain p r2 where p: "generate_bid_price r1 = (p, r2)" by fastforce
    have "sound_offer (v # vs) (offer_of c (vw_creatives v ! i) p)"
      using 3 i generate_bid_price_range [OF p]
      by (auto simp: sound_offer_def offer_of_def intro!: nth_mem)
    moreover have "biddable v" using 3 by (simp add: biddable_def valid_def)
    ultimately show ?thesis
      using 3 i p len [of r2] tail [of r2] by (cases "offers vs r2") simp
  qed
qed simp

lemma offers_wf: "rng_wf r \<Longrightarrow> rng_wf (snd (offers vs r))"
proof (induction vs arbitrary: r)
  case (Cons v vs)
  then show ?case
    by (auto dest: choose_random_creative_wf generate_bid_price_wf
        split: option.splits prod.splits) (metis snd_conv choose_random_creative_wf generate_bid_price_wf)+
qed simp

lemma make_bid_decision_wf: "rng_wf r \<Longrightarrow> rng_wf (snd (make_bid_decision rc vs r))"
  using offers_wf by (cases "is_eligible rc")
     (simp_all only: make_bid_decision_offers make_bid_decision_ineligible snd_conv not_False_eq_True)

text \<open>The whole contract of the decision for an eligible request.\<close>

lemma make_bid_decision_eligible:
  fixes r :: WorkerRng
  assumes "is_eligible rc" "views_fit vs"
  defines "d \<equiv> fst (make_bid_decision rc vs r)"
  shows "bd_has_bid d \<longleftrightarrow> (\<exists>v \<in> set vs. biddable v)"
    and "bd_has_bid d \<Longrightarrow> sound_offer vs d"
    and "\<not> bd_has_bid d \<Longrightarrow> d = no_bid NB_NoEligibleCampaign"
proof -
  note os = offers_spec [OF assms(2), of r]
  have d: "d = best_of (fst (offers vs r))"
    using assms(1) by (simp only: d_def make_bid_decision_offers fst_conv)
  have "(fst (offers vs r) = []) \<longleftrightarrow> (filter biddable vs = [])"
    using os by (metis length_0_conv)
  then have e: "(fst (offers vs r) = []) \<longleftrightarrow> \<not> (\<exists>v \<in> set vs. biddable v)"
    by (auto simp: filter_empty_conv)
  have s: "sound_offer vs d \<and> bd_has_bid d" if ne: "fst (offers vs r) \<noteq> []"
  proof -
    have "d \<in> set (fst (offers vs r))"
      using best_of_first [OF ne] d by (auto simp: is_first_max_def)
    then have so: "sound_offer vs d" using os by blast
    then obtain c cv p where "d = offer_of c cv p" by (auto simp: sound_offer_def)
    then have "bd_has_bid d" by (simp add: offer_of_def)
    with so show ?thesis by blast
  qed
  have n: "d = no_bid NB_NoEligibleCampaign" if "fst (offers vs r) = []"
    using d that by (simp add: best_of_def)
  show "bd_has_bid d \<longleftrightarrow> (\<exists>v \<in> set vs. biddable v)"
    and "bd_has_bid d \<Longrightarrow> sound_offer vs d"
    and "\<not> bd_has_bid d \<Longrightarrow> d = no_bid NB_NoEligibleCampaign"
    using s n e by (auto simp: no_bid_def)
qed

section \<open>Properties\<close>

text \<open>
  C7. The decision is the first of the best offers: of the offers drawn for the candidates in
  order, no other has a higher price and every earlier one has a lower price; without an offer
  the decision is that no campaign is eligible.
\<close>

theorem decision_is_first_best_offer:
  assumes "is_eligible rc"
  shows "if fst (offers vs r) = []
    then fst (make_bid_decision rc vs r) = no_bid NB_NoEligibleCampaign
    else \<exists>k. is_first_max (fst (offers vs r)) k \<and> fst (make_bid_decision rc vs r) = fst (offers vs r) ! k"
  using best_of_first [of "fst (offers vs r)"] make_bid_decision_offers [OF assms, of vs r]
  by (auto simp: best_of_def)

definition sample_context :: RequestContext where
  "sample_context =
    \<lparr>rc_request_id = ''r1'', rc_country_key = 1, rc_device_type_key = DT_Mobile, rc_ad_slot_key = 1,
     rc_auction_type = AT_FirstPrice, rc_received_at_ns = 1, rc_deadline_ns = 2,
     rc_processing_status = RP_Ok, rc_no_bid_reason = NB_None\<rparr>"

definition sample_view :: CampaignView where
  "sample_view =
    \<lparr>vw_campaign = Some \<lparr>cr_campaign_id = 7, cr_country_key = 1, cr_device_type_key = DT_Mobile,
       cr_ad_slot_key = 1, cr_value_per_action = 1, cr_aggressiveness = 1, cr_creative_offset = 0,
       cr_creative_count = 1, cr_active = True\<rparr>,
     vw_creatives = [\<lparr>cv_creative_id = 70, cv_ad_slot_key = 1\<rparr>]\<rparr>"

lemma sample_context_eligible: "is_eligible sample_context"
  by (simp add: sample_context_def)

theorem decision_is_first_best_offer_witness:
  "\<exists>k. is_first_max (fst (offers [sample_view, sample_view] default_rng)) k \<and>
    fst (make_bid_decision sample_context [sample_view, sample_view] default_rng) =
      fst (offers [sample_view, sample_view] default_rng) ! k"
proof -
  have fit: "views_fit [sample_view, sample_view]"
    by (simp add: views_fit_def sample_view_def max_vec_def)
  have "length (fst (offers [sample_view, sample_view] default_rng)) = 2"
    using offers_spec [OF fit, of default_rng] by (simp add: biddable_def valid_def sample_view_def)
  then have "fst (offers [sample_view, sample_view] default_rng) \<noteq> []" by auto
  then show ?thesis
    using decision_is_first_best_offer [OF sample_context_eligible, of "[sample_view, sample_view]" default_rng]
    by simp
qed

text \<open>
  C26. An eligible request gets a bid exactly when some candidate is valid and has a creative;
  the bid then names such a candidate and one of its creatives at a price within the bounds.
\<close>

theorem bid_iff_biddable:
  assumes "is_eligible rc" and "views_fit vs"
  shows "if \<exists>v \<in> set vs. biddable v
    then bd_has_bid (fst (make_bid_decision rc vs r)) \<and> sound_offer vs (fst (make_bid_decision rc vs r))
    else fst (make_bid_decision rc vs r) = no_bid NB_NoEligibleCampaign"
  using make_bid_decision_eligible [OF assms, of r] by (auto simp: no_bid_def)

theorem bid_iff_biddable_witness:
  "bd_has_bid (fst (make_bid_decision sample_context [sample_view] default_rng))"
proof -
  have "views_fit [sample_view]" by (simp add: views_fit_def sample_view_def max_vec_def)
  from bid_iff_biddable [OF sample_context_eligible this, of default_rng] show ?thesis
    by (simp add: biddable_def valid_def sample_view_def)
qed

end
