(* ===== verification/Rtb_Parse.thy ===== *)
theory Rtb_Parse
  imports Rtb_Types
begin

text \<open>
  \<open>include/rtb/parse.h\<close> and \<open>src/parse.cc\<close>: from the payload of a frame to a
  \<open>ParsedMessage\<close>. Decoding the payload is the work of the protobuf library, which is not part
  of the repository: the record \<open>proto_lib\<close> holds the three library functions the engine
  calls, and every definition that calls one takes it as an argument. \<open>ParseFromArray\<close> is
  given the old contents of the scratch message, since the code deliberately omits the call
  of \<open>Clear()\<close>; \<open>SerializeToArray\<close> yields its result and the bytes it has written.
\<close>

record proto_lib =
  ParseFromArray :: "u8 list \<Rightarrow> BidRequest \<Rightarrow> bool \<times> BidRequest"
  ByteSizeLong :: "BidResponse \<Rightarrow> u64"
  SerializeToArray :: "BidResponse \<Rightarrow> u64 \<Rightarrow> bool \<times> u8 list"

section \<open>Parsing\<close>

datatype ParseStatus =
    PS_Ok
  | PS_MalformedProto
  | PS_MissingRequestId
  | PS_MissingCountry
  | PS_MissingDeviceType
  | PS_MissingAdSlot
  | PS_InvalidAuctionType

record ParseScratch =
  request :: BidRequest

definition map_auction_type :: "u32 \<Rightarrow> AuctionType" where
  "map_auction_type auction_type =
    (if auction_type = AUCTION_TYPE_FIRST_PRICE then AT_FirstPrice
     else if auction_type = AUCTION_TYPE_SECOND_PRICE then AT_SecondPrice
     else AT_Unspecified)"

definition int_max :: nat where "int_max = 2 ^ 31 - 1"

definition parse_bid_request ::
  "proto_lib \<Rightarrow> u8 list \<Rightarrow> ParseScratch \<Rightarrow> ParseStatus \<times> ParseScratch \<times> ParsedMessage" where
  "parse_bid_request lib frame scratch =
    (if length frame > int_max then (PS_MalformedProto, scratch, empty_ParsedMessage)
     else
       let (parsed, rq) = ParseFromArray lib frame (request scratch);
           scratch = scratch\<lparr>request := rq\<rparr> in
       if \<not> parsed then (PS_MalformedProto, scratch, empty_ParsedMessage)
       else if rq_request_id rq = '''' then (PS_MissingRequestId, scratch, empty_ParsedMessage)
       else if rq_country rq = '''' then (PS_MissingCountry, scratch, empty_ParsedMessage)
       else if rq_device_type rq = '''' then (PS_MissingDeviceType, scratch, empty_ParsedMessage)
       else if rq_ad_slot rq = '''' then (PS_MissingAdSlot, scratch, empty_ParsedMessage)
       else
         let auction_type = map_auction_type (rq_auction_type rq) in
         if auction_type = AT_Unspecified
         then (PS_InvalidAuctionType, scratch, empty_ParsedMessage)
         else (PS_Ok, scratch,
           \<lparr>pm_request_id = rq_request_id rq, pm_tmax_ms = rq_tmax_ms rq,
            pm_country = rq_country rq, pm_device_type = rq_device_type rq,
            pm_ad_slot = rq_ad_slot rq, pm_auction_type = auction_type,
            pm_processing_status = RP_Ok\<rparr>))"

section \<open>What an accepted message is\<close>

definition complete_request :: "BidRequest \<Rightarrow> bool" where
  "complete_request rq \<longleftrightarrow>
    rq_request_id rq \<noteq> '''' \<and> rq_country rq \<noteq> '''' \<and> rq_device_type rq \<noteq> '''' \<and>
    rq_ad_slot rq \<noteq> '''' \<and> (rq_auction_type rq = 1 \<or> rq_auction_type rq = 2)"

text \<open>The message of a request; the auction is read by the numbers of \<open>proto/rtb.proto\<close>.\<close>

definition message_of :: "BidRequest \<Rightarrow> ParsedMessage" where
  "message_of rq =
    \<lparr>pm_request_id = rq_request_id rq, pm_tmax_ms = rq_tmax_ms rq, pm_country = rq_country rq,
     pm_device_type = rq_device_type rq, pm_ad_slot = rq_ad_slot rq,
     pm_auction_type = (if rq_auction_type rq = 1 then AT_FirstPrice
       else if rq_auction_type rq = 2 then AT_SecondPrice else AT_Unspecified),
     pm_processing_status = RP_Ok\<rparr>"

text \<open>Documented: \<open>ParseFromArray\<close> clears the message it parses into.\<close>

definition clears_target :: "proto_lib \<Rightarrow> bool" where
  "clears_target lib \<longleftrightarrow>
    (\<forall>bs rq rq'. ParseFromArray lib bs rq = ParseFromArray lib bs rq')"

lemma map_auction_type_number:
  "map_auction_type a =
    (if a = 1 then AT_FirstPrice else if a = 2 then AT_SecondPrice else AT_Unspecified)"
  by (simp add: map_auction_type_def AUCTION_TYPE_FIRST_PRICE_def AUCTION_TYPE_SECOND_PRICE_def)

lemma map_auction_type_iff:
  "map_auction_type a = AT_Unspecified \<longleftrightarrow> a \<noteq> 1 \<and> a \<noteq> 2"
  by (simp add: map_auction_type_number)

lemma parse_ok_iff:
  "fst (parse_bid_request lib frame scratch) = PS_Ok \<longleftrightarrow>
    length frame \<le> int_max \<and> fst (ParseFromArray lib frame (request scratch)) \<and>
    complete_request (snd (ParseFromArray lib frame (request scratch)))"
  by (auto simp: parse_bid_request_def complete_request_def Let_def map_auction_type_iff
      split: prod.splits)

lemma parse_result:
  "snd (snd (parse_bid_request lib frame scratch)) =
    (if fst (parse_bid_request lib frame scratch) = PS_Ok
     then message_of (snd (ParseFromArray lib frame (request scratch)))
     else empty_ParsedMessage)"
  by (auto simp: parse_bid_request_def message_of_def map_auction_type_number Let_def split: prod.splits)

lemma parse_ok_message:
  assumes "parse_bid_request lib frame scratch = (PS_Ok, scratch', pm)"
  shows "pm_request_id pm \<noteq> ''''" and "pm_auction_type pm \<noteq> AT_Unspecified"
    and "pm_processing_status pm = RP_Ok"
  using assms by (auto simp: parse_bid_request_def Let_def split: prod.splits if_splits)

lemma parse_scratch_independent:
  assumes "clears_target lib"
  shows "fst (parse_bid_request lib frame s) = fst (parse_bid_request lib frame s')"
    and "snd (snd (parse_bid_request lib frame s)) = snd (snd (parse_bid_request lib frame s'))"
proof -
  have "ParseFromArray lib frame (request s) = ParseFromArray lib frame (request s')"
    using assms unfolding clears_target_def by blast
  then show "fst (parse_bid_request lib frame s) = fst (parse_bid_request lib frame s')"
    and "snd (snd (parse_bid_request lib frame s)) = snd (snd (parse_bid_request lib frame s'))"
    by (auto simp: parse_bid_request_def Let_def split: prod.splits)
qed

section \<open>Properties\<close>

text \<open>
  C31. A frame is accepted exactly when the library parses it and every field the engine needs
  is there; the message then holds exactly the fields of the request, with auction type 1 read
  as first price and 2 as second price, and is empty otherwise.
\<close>

theorem parse_accepts_complete_requests:
  "(fst (parse_bid_request lib frame scratch) = PS_Ok \<longleftrightarrow>
      length frame \<le> int_max \<and> fst (ParseFromArray lib frame (request scratch)) \<and>
      complete_request (snd (ParseFromArray lib frame (request scratch)))) \<and>
    snd (snd (parse_bid_request lib frame scratch)) =
      (if fst (parse_bid_request lib frame scratch) = PS_Ok
       then message_of (snd (ParseFromArray lib frame (request scratch))) else empty_ParsedMessage)"
  using parse_ok_iff parse_result by blast

text \<open>
  A stand-in for the library in the witnesses: every nonempty text parses as the same request,
  every response is written as two bytes.
\<close>

definition sample_request :: BidRequest where
  "sample_request =
    \<lparr>rq_request_id = ''r1'', rq_tmax_ms = 100, rq_country = ''US'', rq_device_type = ''ctv'',
     rq_ad_slot = ''home'', rq_auction_type = 1\<rparr>"

definition sample_lib :: proto_lib where
  "sample_lib =
    \<lparr>ParseFromArray = (\<lambda>bs rq. (bs \<noteq> [], if bs \<noteq> [] then sample_request else empty_BidRequest)),
     ByteSizeLong = (\<lambda>r. 2), SerializeToArray = (\<lambda>r n. (True, replicate (unat n) 7))\<rparr>"

end
