(* ===== verification/Rtb_Frame.thy ===== *)
theory Rtb_Frame
  imports Rtb_Prelude
begin

text \<open>
  The receive and send buffers and the framing of messages on a TCP stream:
  \<open>include/rtb/runtime_types.h\<close> (\<open>ReusableBuffer\<close>), \<open>include/rtb/frame.h\<close> and
  \<open>src/frame.cc\<close>.

  The record \<open>ReusableBuffer\<close> has the fields of the struct; the offsets are \<open>size_t\<close> words.
  A \<open>std::span\<close> into the storage is the pair of its offset and length, so that moving the
  storage under a span (\<open>compact\<close>) is visible in the model. The abstract state of a buffer
  is the byte string between its offsets, \<open>pending\<close>; every operation is shown to implement
  an operation on that string, and \<open>try_extract_frame\<close> to implement \<open>decode_frame\<close>, the
  format of the stream: four length bytes, most significant first, then the payload.
\<close>

section \<open>Byte order\<close>

text \<open>
  The targets of the build are little-endian. \<open>memcpy\<close> between a \<open>uint32_t\<close> and four bytes
  is \<open>load32\<close> and \<open>store32\<close>; \<open>htonl\<close> and \<open>ntohl\<close> swap the bytes of the word.
\<close>

definition store32 :: "u32 \<Rightarrow> u8 list" where
  "store32 w = [ucast w, ucast (drop_bit 8 w), ucast (drop_bit 16 w), ucast (drop_bit 24 w)]"

definition load32 :: "u8 list \<Rightarrow> u32" where
  "load32 bs =
    ucast (bs ! 0) OR push_bit 8 (ucast (bs ! 1)) OR
    push_bit 16 (ucast (bs ! 2)) OR push_bit 24 (ucast (bs ! 3))"

definition swap32 :: "u32 \<Rightarrow> u32" where
  "swap32 w =
    push_bit 24 (w AND 0xFF) OR push_bit 8 (w AND 0xFF00) OR
    (drop_bit 8 w AND 0xFF00) OR drop_bit 24 w"

definition htonl :: "u32 \<Rightarrow> u32" where "htonl = swap32"
definition ntohl :: "u32 \<Rightarrow> u32" where "ntohl = swap32"

section \<open>The buffer\<close>

record ReusableBuffer =
  storage :: "u8 list"
  read_offset :: u64
  write_offset :: u64

definition empty_buffer :: ReusableBuffer where
  "empty_buffer = \<lparr>storage = [], read_offset = 0, write_offset = 0\<rparr>"

definition readable_bytes :: "ReusableBuffer \<Rightarrow> u64" where
  "readable_bytes b = write_offset b - read_offset b"

definition writable_bytes :: "ReusableBuffer \<Rightarrow> u64" where
  "writable_bytes b = vec_size (storage b) - write_offset b"

definition reserve :: "ReusableBuffer \<Rightarrow> u64 \<Rightarrow> ReusableBuffer" where
  "reserve b capacity =
    (if vec_size (storage b) < capacity
     then b\<lparr>storage := vec_resize (storage b) (unat capacity)\<rparr> else b)"

text \<open>A span over the storage: offset and length in bytes; \<open>{}\<close> is the empty span.\<close>

type_synonym byte_span = "u64 \<times> u64"

definition writable_region :: "ReusableBuffer \<Rightarrow> byte_span" where
  "writable_region b =
    (if write_offset b > vec_size (storage b) then (0, 0)
     else (write_offset b, vec_size (storage b) - write_offset b))"

definition commit_write :: "ReusableBuffer \<Rightarrow> u64 \<Rightarrow> ReusableBuffer" where
  "commit_write b bytes_written =
    b\<lparr>write_offset := min (write_offset b + bytes_written) (vec_size (storage b))\<rparr>"

text \<open>What a write through a span does to the storage, and a read through one.\<close>

definition write_span :: "ReusableBuffer \<Rightarrow> u64 \<Rightarrow> u8 list \<Rightarrow> ReusableBuffer" where
  "write_span b off bs = b\<lparr>storage := overwrite (storage b) (unat off) bs\<rparr>"

definition read_span :: "ReusableBuffer \<Rightarrow> byte_span \<Rightarrow> u8 list" where
  "read_span b sp = take (unat (snd sp)) (drop (unat (fst sp)) (storage b))"

section \<open>Frames\<close>

datatype FrameStatus = FS_NeedMoreData | FS_FrameReady | FS_InvalidLength

record FrameView =
  fv_payload :: byte_span
  fv_payload_length :: u32
  fv_total_frame_bytes :: u32

definition empty_FrameView :: FrameView where
  "empty_FrameView = \<lparr>fv_payload = (0, 0), fv_payload_length = 0, fv_total_frame_bytes = 0\<rparr>"

text \<open>
  \<open>total_frame_bytes\<close> is computed as a \<open>size_t\<close> and then narrowed to 32 bits.
\<close>

definition try_extract_frame :: "ReusableBuffer \<Rightarrow> u32 \<Rightarrow> FrameStatus \<times> FrameView" where
  "try_extract_frame b max_frame_size =
    (let total_bytes = readable_bytes b in
     if total_bytes < 4 then (FS_NeedMoreData, empty_FrameView)
     else
       let network_payload_length = load32 (read_span b (read_offset b, 4));
           payload_length = ntohl network_payload_length in
       if payload_length = 0 \<or> payload_length > max_frame_size
       then (FS_InvalidLength, empty_FrameView)
       else if total_bytes < 4 + ucast payload_length then (FS_NeedMoreData, empty_FrameView)
       else (FS_FrameReady,
         \<lparr>fv_payload = (read_offset b + 4, ucast payload_length),
          fv_payload_length = payload_length,
          fv_total_frame_bytes = ucast (4 + ucast payload_length :: u64)\<rparr>))"

definition consume_frame :: "ReusableBuffer \<Rightarrow> u64 \<Rightarrow> ReusableBuffer" where
  "consume_frame b total_frame_bytes =
    (let r = min (read_offset b + total_frame_bytes) (write_offset b) in
     if r = write_offset b then b\<lparr>read_offset := 0, write_offset := 0\<rparr>
     else b\<lparr>read_offset := r\<rparr>)"

definition compact :: "ReusableBuffer \<Rightarrow> ReusableBuffer" where
  "compact b =
    (if read_offset b = 0 then b
     else
       let unread_bytes = readable_bytes b;
           moved = (if unread_bytes > 0
                    then overwrite (storage b) 0 (read_span b (read_offset b, unread_bytes))
                    else storage b)
       in b\<lparr>storage := moved, read_offset := 0, write_offset := unread_bytes\<rparr>)"

section \<open>The format of the stream\<close>

text \<open>The four bytes of a number below \<open>2 ^ 32\<close>, most significant first, and back.\<close>

definition be_bytes :: "nat \<Rightarrow> u8 list" where
  "be_bytes n = map word_of_nat [n div 2 ^ 24, n div 2 ^ 16, n div 2 ^ 8, n]"

definition be_value :: "u8 list \<Rightarrow> nat" where
  "be_value bs =
    unat (bs ! 0) * 2 ^ 24 + unat (bs ! 1) * 2 ^ 16 + unat (bs ! 2) * 2 ^ 8 + unat (bs ! 3)"

datatype frame_parse =
    Incomplete
  | BadLength
  | is_Complete: Complete (parse_payload: "u8 list") (parse_rest: "u8 list")

definition decode_frame :: "nat \<Rightarrow> u8 list \<Rightarrow> frame_parse" where
  "decode_frame mx bs =
    (if length bs < 4 then Incomplete
     else
       let n = be_value (take 4 bs) in
       if n = 0 \<or> mx < n then BadLength
       else if length bs < 4 + n then Incomplete
       else Complete (take n (drop 4 bs)) (drop (4 + n) bs))"

definition encode_frame :: "u8 list \<Rightarrow> u8 list" where
  "encode_frame p = be_bytes (length p) @ p"

text \<open>All frames of a byte string, and what is left when no further frame is complete.\<close>

function decode_stream :: "nat \<Rightarrow> u8 list \<Rightarrow> u8 list list \<times> u8 list" where
  "decode_stream mx bs =
    (case decode_frame mx bs of
       Complete p rest \<Rightarrow> let (ps, r) = decode_stream mx rest in (p # ps, r)
     | _ \<Rightarrow> ([], bs))"
  by pat_completeness auto
termination
  by (relation "measure (\<lambda>(mx, bs). length bs)")
     (auto simp: decode_frame_def Let_def split: if_splits)

declare decode_stream.simps [simp del]

section \<open>Lemmas: byte order\<close>

lemma mask_byte0: "(0xFF :: u32) = mask 8" by (simp add: mask_eq_exp_minus_1)

lemma mask_byte1: "(0xFF00 :: u32) = push_bit 8 (mask 8)" by (simp add: mask_eq_exp_minus_1 push_bit_eq_mult)

lemma byte_ranges:
  obtains "n < 8" | k where "n = 8 + k" "k < 8" | k where "n = 16 + k" "k < 8"
    | k where "n = 24 + k" "k < 8" | "32 \<le> (n::nat)"
proof -
  consider "n < 8" | "8 \<le> n" "n < 16" | "16 \<le> n" "n < 24" | "24 \<le> n" "n < 32" | "32 \<le> n"
    by linarith
  then show thesis
    by cases (auto intro: that dest: le_Suc_ex simp: le_iff_add)
qed

lemma bit_u32_big: "32 \<le> n \<Longrightarrow> \<not> bit (w :: u32) n"
  using bit_imp_le_length [of w n] by auto
lemma bit_u8_big: "8 \<le> n \<Longrightarrow> \<not> bit (w :: u8) n"
  using bit_imp_le_length [of w n] by auto
lemma bit_swap32: "bit (swap32 w) n \<longleftrightarrow> n < 32 \<and>
  (if n < 8 then bit w (24 + n) else if n < 16 then bit w (8 + n)
   else if n < 24 then bit w (n - 8) else bit w (n - 24))"
  by (cases rule: byte_ranges [of n]) (simp_all add: swap32_def mask_byte0 mask_byte1 bit_simps bit_u32_big)

lemma bit_load32: "bit (load32 bs) n \<longleftrightarrow> n < 32 \<and>
  (if n < 8 then bit (bs ! 0) n else if n < 16 then bit (bs ! 1) (n - 8)
   else if n < 24 then bit (bs ! 2) (n - 16) else bit (bs ! 3) (n - 24))"
  by (cases rule: byte_ranges [of n]) (simp_all add: load32_def bit_simps bit_u32_big bit_u8_big)

lemma swap_load_cat:
  "swap32 (load32 bs) =
    word_cat (word_cat (word_cat (bs ! 0) (bs ! 1) :: 16 word) (bs ! 2) :: 24 word) (bs ! 3)"
proof (rule bit_word_eqI)
  fix n assume "n < LENGTH(32)"
  then show "bit (swap32 (load32 bs)) n \<longleftrightarrow>
      bit (word_cat (word_cat (word_cat (bs ! 0) (bs ! 1) :: 16 word) (bs ! 2) :: 24 word) (bs ! 3) :: u32) n"
    by (cases rule: byte_ranges [of n]) (simp_all add: bit_load32 bit_swap32 bit_word_cat_iff)
qed

lemma unat_cat_byte:
  fixes v :: "'a::len word" and b :: u8
  assumes "LENGTH('c::len) = LENGTH('a) + 8"
  shows "unat (word_cat v b :: 'c word) = unat v * 2 ^ 8 + unat b"
proof -
  have v: "unat v < 2 ^ LENGTH('a)" and b: "unat b < 2 ^ 8"
    using unsigned_less [of v] unsigned_less [of b] by auto
  have lt: "unat v * 2 ^ 8 + unat b < 2 ^ LENGTH('c)"
  proof -
    have "unat v * 2 ^ 8 + unat b < (unat v + 1) * 2 ^ 8" using b by simp
    also have "\<dots> \<le> 2 ^ LENGTH('a) * 2 ^ 8" using v by (intro mult_right_mono) (auto simp: Suc_le_eq)
    finally show ?thesis by (simp add: assms power_add)
  qed
  have "(word_cat v b :: 'c word) = word_of_nat (unat v * 2 ^ 8 + unat b)"
    by (simp add: word_cat_eq push_bit_eq_mult)
  then show ?thesis using lt by (simp only: unat_of_nat mod_less)
qed

lemma unat_ntohl_load32: "unat (ntohl (load32 bs)) = be_value bs"
  by (simp add: ntohl_def swap_load_cat unat_cat_byte be_value_def)

lemma store_htonl: "store32 (htonl w) = be_bytes (unat w)"
proof -
  have n: "(word_of_nat (unat w div 2 ^ k) :: u8) = ucast (drop_bit k w)" for k
  proof -
    have "unat w div 2 ^ k = unat (drop_bit k w)"
      by (simp only: unat_drop_bit_eq drop_bit_eq_div [symmetric])
    then show ?thesis by simp
  qed
  have "ucast (drop_bit (24 - k) (swap32 w)) = (ucast (drop_bit k w) :: u8)" if "k \<in> {0, 8, 16, 24}" for k
    using that by (intro bit_word_eqI) (auto simp: bit_simps bit_swap32)
  from this [of 0] this [of 8] this [of 16] this [of 24] show ?thesis
    using n [of 24] n [of 16] n [of 8] n [of 0] by (simp add: store32_def htonl_def be_bytes_def)
qed

lemma be_value_be_bytes:
  assumes "n < 2 ^ 32"
  shows "be_value (be_bytes n @ bs) = n"
proof -
  define a where "a = n div 2 ^ 8"
  define b where "b = a div 2 ^ 8"
  have "n div 2 ^ 8 = a" "n div 2 ^ 16 = b" "n div 2 ^ 24 = b div 2 ^ 8"
    by (simp_all add: a_def b_def div_mult2_eq [symmetric])
  moreover have "b div 2 ^ 8 < 2 ^ 8"
    using assms by (simp add: a_def b_def div_mult2_eq [symmetric])
  ultimately have "be_value (be_bytes n @ bs) =
      b div 256 * 16777216 + b mod 256 * 65536 + a mod 256 * 256 + n mod 256"
    by (simp add: be_value_def be_bytes_def unat_of_nat take_bit_eq_mod)
  moreover have "a * 256 + n mod 256 = n" "b * 256 + a mod 256 = a" "b div 256 * 256 + b mod 256 = b"
    by (simp_all add: a_def b_def)
  ultimately show ?thesis by linarith
qed

lemma store_load:
  assumes "length bs = 4"
  shows "store32 (load32 bs) = bs"
proof -
  have byte: "(ucast (drop_bit (8 * i) (load32 bs)) :: u8) = bs ! i" if "i < 4" for i
  proof (rule bit_word_eqI)
    fix n assume n: "n < LENGTH(8)"
    from that consider "i = 0" | "i = 1" | "i = 2" | "i = 3" by linarith
    then show "bit (ucast (drop_bit (8 * i) (load32 bs)) :: u8) n \<longleftrightarrow> bit (bs ! i) n"
      using n by cases (simp_all add: bit_ucast_iff bit_drop_bit_eq bit_load32)
  qed
  from assms obtain a b c d where "bs = [a, b, c, d]"
    by (auto simp: numeral_eq_Suc length_Suc_conv)
  with byte [of 0] byte [of 1] byte [of 2] byte [of 3] show ?thesis
    by (simp add: store32_def)
qed

lemma swap_swap: "swap32 (swap32 w) = w"
proof (rule bit_word_eqI)
  fix n assume "n < LENGTH(32)"
  then show "bit (swap32 (swap32 w)) n \<longleftrightarrow> bit w n"
    by (cases rule: byte_ranges [of n]) (simp_all add: bit_swap32)
qed

lemma be_bytes_be_value: "length bs = 4 \<Longrightarrow> be_bytes (be_value bs) = bs"
  by (simp add: unat_ntohl_load32 [symmetric] store_htonl [symmetric] htonl_def ntohl_def
      swap_swap store_load)

section \<open>Lemmas: the stream format\<close>

lemma length_be_bytes [simp]: "length (be_bytes n) = 4"
  by (simp add: be_bytes_def)

lemma be_value_append: "length bs = 4 \<Longrightarrow> be_value (bs @ cs) = be_value bs"
  by (simp add: be_value_def nth_append)

lemma decode_encode:
  assumes "p \<noteq> []" "length p \<le> mx" "mx < 2 ^ 32"
  shows "decode_frame mx (encode_frame p @ rest) = Complete p rest"
  using assms be_value_be_bytes [of "length p" "[]"]
  by (simp add: decode_frame_def encode_frame_def Let_def)

lemma decode_Complete_length:
  "decode_frame mx bs = Complete p rest \<Longrightarrow>
    p \<noteq> [] \<and> length p \<le> mx \<and> length bs = 4 + length p + length rest"
  by (auto simp: decode_frame_def Let_def split: if_splits)

lemma encode_decode: "decode_frame mx bs = Complete p rest \<Longrightarrow> bs = encode_frame p @ rest"
proof -
  assume "decode_frame mx bs = Complete p rest"
  then have len: "4 \<le> length bs" "4 + be_value (take 4 bs) \<le> length bs"
    and p: "p = take (be_value (take 4 bs)) (drop 4 bs)"
    and rest: "rest = drop (4 + be_value (take 4 bs)) bs"
    by (auto simp: decode_frame_def Let_def split: if_splits)
  have "length p = be_value (take 4 bs)" using len p by simp
  then have "encode_frame p = take 4 bs @ p"
    using len by (simp add: encode_frame_def be_bytes_be_value)
  moreover have "bs = take 4 bs @ p @ drop (be_value (take 4 bs)) (drop 4 bs)"
    unfolding p by (simp only: append_take_drop_id)
  ultimately show ?thesis
    by (simp add: rest add.commute)
qed

lemma decode_frame_append:
  "decode_frame mx bs = Complete p rest \<Longrightarrow> decode_frame mx (bs @ cs) = Complete p (rest @ cs)"
  "decode_frame mx bs = BadLength \<Longrightarrow> decode_frame mx (bs @ cs) = BadLength"
  by (auto simp: decode_frame_def Let_def split: if_splits)

lemma decode_stream_append:
  "decode_stream mx (xs @ ys) =
    (let (ps, r) = decode_stream mx xs; (qs, r') = decode_stream mx (r @ ys) in (ps @ qs, r'))"
proof (induction mx xs rule: decode_stream.induct)
  case (1 mx xs)
  show ?case
  proof (cases "decode_frame mx xs")
    case (Complete p rest)
    then show ?thesis
      using 1 [OF Complete]
      by (simp add: decode_stream.simps [of mx xs] decode_stream.simps [of mx "xs @ ys"]
          decode_frame_append(1) split: prod.splits)
  qed (simp_all add: decode_stream.simps [of mx xs] split: prod.splits)
qed

lemma decode_stream_encoded:
  assumes "\<forall>p \<in> set ps. p \<noteq> [] \<and> length p \<le> mx" "mx < 2 ^ 32"
  shows "decode_stream mx (concat (map encode_frame ps) @ tail) =
    (let (qs, r) = decode_stream mx tail in (ps @ qs, r))"
  using assms
proof (induction ps)
  case Nil
  then show ?case by (simp split: prod.splits)
next
  case (Cons p ps)
  then show ?case
    using decode_stream.simps [of mx "concat (map encode_frame (p # ps)) @ tail"]
    by (simp add: decode_encode split: prod.splits)
qed

section \<open>The buffer as a queue of bytes\<close>

definition buffer_wf :: "ReusableBuffer \<Rightarrow> bool" where
  "buffer_wf b \<longleftrightarrow>
    length (storage b) < max_vec \<and> unat (read_offset b) \<le> unat (write_offset b) \<and>
    unat (write_offset b) \<le> length (storage b)"

text \<open>The bytes between the two offsets: received (or staged) and not yet consumed.\<close>

definition pending :: "ReusableBuffer \<Rightarrow> u8 list" where
  "pending b =
    take (unat (write_offset b) - unat (read_offset b)) (drop (unat (read_offset b)) (storage b))"

lemma buffer_wfD:
  assumes "buffer_wf b"
  shows "length (storage b) < max_vec"
    and "unat (read_offset b) \<le> unat (write_offset b)"
    and "unat (write_offset b) \<le> length (storage b)"
    and "unat (vec_size (storage b)) = length (storage b)"
    and "unat (readable_bytes b) = unat (write_offset b) - unat (read_offset b)"
    and "length (pending b) = unat (write_offset b) - unat (read_offset b)"
  using assms
  by (auto simp: buffer_wf_def unat_vec_size readable_bytes_def unat_sub_no_wrap pending_def)

lemma unat_min: "unat (min a b) = min (unat a) (unat (b :: u64))"
  by (simp add: min_def word_le_nat_alt)

lemma buffer_wf_empty [wf_intros]: "buffer_wf empty_buffer"
  by (simp add: buffer_wf_def empty_buffer_def max_vec_def)

lemma pending_empty [simp]: "pending empty_buffer = []"
  by (simp add: pending_def empty_buffer_def)

lemma reserve_wf [wf_intros]:
  "buffer_wf b \<Longrightarrow> unat capacity < max_vec \<Longrightarrow> buffer_wf (reserve b capacity)"
  by (auto simp: buffer_wf_def reserve_def word_less_nat_alt unat_vec_size)

lemma reserve_pending [spec_simps]: "buffer_wf b \<Longrightarrow> pending (reserve b capacity) = pending b"
proof -
  assume wf: "buffer_wf b"
  have "take k (drop r (vec_resize xs n)) = take k (drop r xs)"
    if "r + k \<le> length xs" "length xs \<le> n" for k r n and xs :: "u8 list"
    using take_vec_resize [of "k + r" xs n] that by (simp add: take_drop add.commute)
  then show ?thesis
    using buffer_wfD [OF wf] by (simp add: pending_def reserve_def word_less_nat_alt)
qed

lemma reserve_size:
  "buffer_wf b \<Longrightarrow> unat capacity < max_vec \<Longrightarrow>
    length (storage (reserve b capacity)) = max (length (storage b)) (unat capacity)"
  by (auto simp: reserve_def word_less_nat_alt buffer_wfD)

lemma writable_region_wf:
  assumes "buffer_wf b"
  shows "fst (writable_region b) = write_offset b"
    and "unat (snd (writable_region b)) = length (storage b) - unat (write_offset b)"
  using buffer_wfD [OF assms]
  by (auto simp: writable_region_def word_less_nat_alt unat_sub_no_wrap)

lemma write_commit_offset:
  assumes wf: "buffer_wf b" and room: "length bs \<le> unat (snd (writable_region b))"
  shows "unat (write_offset b + word_of_nat (length bs)) = unat (write_offset b) + length bs"
    and "unat (write_offset b) + length bs \<le> length (storage b)"
proof -
  note w = buffer_wfD [OF wf] writable_region_wf [OF wf]
  show le: "unat (write_offset b) + length bs \<le> length (storage b)"
    using w room by linarith
  then have "length bs < 2 ^ 64" using w by (simp add: max_vec_def)
  then show "unat (write_offset b + word_of_nat (length bs)) = unat (write_offset b) + length bs"
    using le w by (simp add: unat_add_no_wrap unat_of_nat_u64 max_vec_def)
qed

text \<open>Writing into the writable region and committing the bytes appends them.\<close>

lemma write_commit:
  assumes wf: "buffer_wf b" and room: "length bs \<le> unat (snd (writable_region b))"
  shows "buffer_wf (commit_write (write_span b (fst (writable_region b)) bs) (word_of_nat (length bs)))"
    and "pending (commit_write (write_span b (fst (writable_region b)) bs) (word_of_nat (length bs)))
      = pending b @ bs"
proof -
  note w = buffer_wfD [OF wf] writable_region_wf [OF wf]
  note o = write_commit_offset [OF wf room]
  define xs where "xs = overwrite (storage b) (unat (write_offset b)) bs"
  have len: "length xs = length (storage b)" using o by (simp add: xs_def)
  then have "vec_size xs = vec_size (storage b)" by (simp add: vec_size_def)
  then have commit: "commit_write (write_span b (fst (writable_region b)) bs) (word_of_nat (length bs))
      = b\<lparr>storage := xs, write_offset := write_offset b + word_of_nat (length bs)\<rparr>"
    using o w by (simp add: commit_write_def write_span_def xs_def min_def word_le_nat_alt)
  show "buffer_wf (commit_write (write_span b (fst (writable_region b)) bs) (word_of_nat (length bs)))"
    unfolding commit using o w len by (simp add: buffer_wf_def)
  show "pending (commit_write (write_span b (fst (writable_region b)) bs) (word_of_nat (length bs)))
      = pending b @ bs"
    unfolding commit using o w by (simp add: pending_def xs_def slice_overwrite_append)
qed

lemma consume_frame_spec:
  assumes wf: "buffer_wf b" and n: "unat n < max_vec"
  shows "buffer_wf (consume_frame b n)" and "pending (consume_frame b n) = drop (unat n) (pending b)"
proof -
  note w = buffer_wfD [OF wf]
  have add: "unat (read_offset b + n) = unat (read_offset b) + unat n"
    using w n by (intro unat_add_no_wrap) (simp add: max_vec_def)
  then have le: "unat (min (read_offset b + n) (write_offset b)) =
      min (unat (read_offset b) + unat n) (unat (write_offset b))"
    by (simp add: unat_min)
  show "buffer_wf (consume_frame b n)"
    using w le by (simp add: consume_frame_def buffer_wf_def Let_def)
  show "pending (consume_frame b n) = drop (unat n) (pending b)"
  proof (cases "min (read_offset b + n) (write_offset b) = write_offset b")
    case True
    then have "unat (write_offset b) \<le> unat (read_offset b) + unat n"
      using le by (metis min.cobounded1)
    then show ?thesis
      using True w by (simp add: consume_frame_def pending_def Let_def)
  next
    case False
    then have "read_offset b + n < write_offset b"
      by (auto simp: min_def split: if_splits)
    then have "unat (read_offset b) + unat n < unat (write_offset b)"
      using add by (simp add: word_less_nat_alt)
    then show ?thesis
      using False le
      by (simp add: consume_frame_def pending_def Let_def drop_take add.commute min_absorb1)
  qed
qed

lemma consume_frame_storage: "storage (consume_frame b n) = storage b"
  by (simp add: consume_frame_def Let_def)

lemma read_span_pending: "buffer_wf b \<Longrightarrow> read_span b (read_offset b, readable_bytes b) = pending b"
  by (simp add: read_span_def pending_def buffer_wfD)

lemma compact_spec:
  assumes wf: "buffer_wf b"
  shows "buffer_wf (compact b)" and "pending (compact b) = pending b"
    and "unat (write_offset (compact b)) = length (pending b) \<or> read_offset b = 0"
    and "length (storage (compact b)) = length (storage b)"
    and "read_offset (compact b) = 0"
proof -
  note w = buffer_wfD [OF wf]
  note r = read_span_pending [OF wf]
  have le: "length (pending b) \<le> length (storage b)" using w by linarith
  have empty: "pending b = []" if "readable_bytes b = 0"
    using that w by (metis le_zero_eq length_0_conv unsigned_0)
  have st: "storage (compact b) = (if read_offset b = 0 then storage b
      else overwrite (storage b) 0 (pending b))"
    using empty by (auto simp: compact_def Let_def r word_gt_0 overwrite_def)
  show len: "length (storage (compact b)) = length (storage b)"
    using le by (simp add: st)
  show "buffer_wf (compact b)"
    using w le len by (auto simp: buffer_wf_def compact_def Let_def)
  show "pending (compact b) = pending b"
    using st w by (simp add: pending_def compact_def Let_def overwrite_def)
  show "unat (write_offset (compact b)) = length (pending b) \<or> read_offset b = 0"
    "read_offset (compact b) = 0"
    using w by (auto simp: compact_def Let_def)
qed

section \<open>Extraction implements the stream format\<close>

lemma take_pending:
  "buffer_wf b \<Longrightarrow> k \<le> length (pending b) \<Longrightarrow>
    take k (pending b) = take k (drop (unat (read_offset b)) (storage b))"
  by (simp add: pending_def buffer_wfD min_absorb1)

lemma load_pending:
  assumes wf: "buffer_wf b" and "4 \<le> length (pending b)"
  shows "unat (ntohl (load32 (read_span b (read_offset b, 4)))) = be_value (take 4 (pending b))"
  using assms by (simp add: unat_ntohl_load32 read_span_def take_pending)

lemma try_extract_frame_spec:
  assumes wf: "buffer_wf b"
  shows "try_extract_frame b mx =
    (case decode_frame (unat mx) (pending b) of
       Incomplete \<Rightarrow> (FS_NeedMoreData, empty_FrameView)
     | BadLength \<Rightarrow> (FS_InvalidLength, empty_FrameView)
     | Complete p rest \<Rightarrow> (FS_FrameReady,
         \<lparr>fv_payload = (read_offset b + 4, word_of_nat (length p)),
          fv_payload_length = word_of_nat (length p),
          fv_total_frame_bytes = ucast (4 + word_of_nat (length p) :: u64)\<rparr>))"
proof (cases "length (pending b) < 4")
  case True
  then have "readable_bytes b < 4"
    using buffer_wfD [OF wf] by (simp add: word_less_nat_alt)
  with True show ?thesis by (simp add: try_extract_frame_def decode_frame_def)
next
  case False
  define pl where "pl = ntohl (load32 (read_span b (read_offset b, 4)))"
  have pl: "be_value (take 4 (pending b)) = unat pl"
    using False load_pending [OF wf] by (simp add: pl_def)
  have big: "unat pl < 2 ^ 32" using unsigned_less [of pl] by simp
  have nm: "\<not> readable_bytes b < 4"
    using False buffer_wfD [OF wf] by (simp add: word_less_nat_alt)
  have z: "pl = 0 \<longleftrightarrow> unat pl = 0" by (simp add: unat_eq_0)
  have c: "ucast pl = (word_of_nat (unat pl) :: u64)" by simp
  have "unat (4 + ucast pl :: u64) = 4 + unat pl"
    using big by (subst unat_add_no_wrap) (simp_all add: width_simps)
  then have short: "readable_bytes b < 4 + ucast pl \<longleftrightarrow> length (pending b) < 4 + unat pl"
    using buffer_wfD [OF wf] by (simp add: word_less_nat_alt)
  show ?thesis
    using False nm z short
    by (simp add: try_extract_frame_def decode_frame_def Let_def pl pl_def [symmetric]
        word_less_nat_alt)
qed

lemma frame_total_bytes:
  assumes "unat mx \<le> 2 ^ 32 - 5" "length p \<le> unat mx"
  shows "unat (ucast (ucast (4 + word_of_nat (length p) :: u64) :: u32) :: u64) = 4 + length p"
proof -
  have "unat (4 + word_of_nat (length p) :: u64) = 4 + length p"
    using assms by (subst unat_add_no_wrap) (simp_all add: width_simps)
  then show ?thesis
    using assms by (simp add: unsigned_ucast_eq unsigned_take_bit_eq take_bit_nat_eq_self)
qed

lemma Complete_payload:
  assumes wf: "buffer_wf b" and c: "decode_frame mx (pending b) = Complete p rest"
  shows "read_span b (read_offset b + 4, word_of_nat (length p)) = p"
    and "unat (read_offset b + 4) + length p \<le> unat (write_offset b)"
proof -
  note w = buffer_wfD [OF wf]
  from decode_Complete_length [OF c] have len: "4 + length p \<le> length (pending b)" by simp
  then have r4: "unat (read_offset b + 4) = unat (read_offset b) + 4"
    using w by (subst unat_add_no_wrap) (simp_all add: max_vec_def)
  have p: "p = take (length p) (drop 4 (pending b))"
    using encode_decode [OF c] by (simp add: encode_frame_def)
  have "length p < 2 ^ 64" using len w by (simp add: max_vec_def)
  then show "read_span b (read_offset b + 4, word_of_nat (length p)) = p"
    using len w
    by (subst (2) p) (simp add: read_span_def r4 width_simps pending_def drop_take add.commute
        min_absorb1)
  show "unat (read_offset b + 4) + length p \<le> unat (write_offset b)"
    using len w r4 by linarith
qed

text \<open>Extracting a frame and consuming it, as every caller does.\<close>

definition next_frame :: "u32 \<Rightarrow> ReusableBuffer \<Rightarrow> (u8 list \<times> ReusableBuffer) option" where
  "next_frame mx b =
    (case try_extract_frame b mx of
       (FS_FrameReady, v) \<Rightarrow>
         Some (read_span b (fv_payload v), consume_frame b (ucast (fv_total_frame_bytes v)))
     | _ \<Rightarrow> None)"

lemma next_frame_spec:
  assumes wf: "buffer_wf b" and mx: "unat mx \<le> 2 ^ 32 - 5"
  shows "decode_frame (unat mx) (pending b) = Complete p rest \<Longrightarrow>
      \<exists>b'. next_frame mx b = Some (p, b') \<and> buffer_wf b' \<and> pending b' = rest"
    and "\<not> is_Complete (decode_frame (unat mx) (pending b)) \<Longrightarrow> next_frame mx b = None"
proof -
  assume c: "decode_frame (unat mx) (pending b) = Complete p rest"
  note l = decode_Complete_length [OF c]
  note t = frame_total_bytes [OF mx, of p]
  have "pending b = encode_frame p @ rest" by (rule encode_decode [OF c])
  then have "drop (4 + length p) (pending b) = rest" by (simp add: encode_frame_def)
  then show "\<exists>b'. next_frame mx b = Some (p, b') \<and> buffer_wf b' \<and> pending b' = rest"
    using l t mx Complete_payload [OF wf c]
      consume_frame_spec [OF wf, of "ucast (ucast (4 + word_of_nat (length p) :: u64) :: u32)"]
    by (simp add: next_frame_def try_extract_frame_spec [OF wf] c max_vec_def)
next
  assume "\<not> is_Complete (decode_frame (unat mx) (pending b))"
  then show "next_frame mx b = None"
    by (cases "decode_frame (unat mx) (pending b)")
       (auto simp: next_frame_def try_extract_frame_spec [OF wf])
qed

section \<open>Any sequence of buffer operations\<close>

datatype buffer_op = Op_Reserve u64 | Op_Put "u8 list" | Op_Consume u64 | Op_Compact

fun buffer_step :: "ReusableBuffer \<Rightarrow> buffer_op \<Rightarrow> ReusableBuffer" where
  "buffer_step b (Op_Reserve n) = reserve b n"
| "buffer_step b (Op_Put bs) =
     commit_write (write_span b (fst (writable_region b)) bs) (word_of_nat (length bs))"
| "buffer_step b (Op_Consume n) = consume_frame b n"
| "buffer_step b Op_Compact = compact b"

fun buffer_ok :: "ReusableBuffer \<Rightarrow> buffer_op \<Rightarrow> bool" where
  "buffer_ok b (Op_Reserve n) = (unat n < max_vec)"
| "buffer_ok b (Op_Put bs) = (length bs \<le> unat (snd (writable_region b)))"
| "buffer_ok b (Op_Consume n) = (unat n < max_vec)"
| "buffer_ok b Op_Compact = True"

fun queue_step :: "u8 list \<Rightarrow> buffer_op \<Rightarrow> u8 list" where
  "queue_step q (Op_Reserve n) = q"
| "queue_step q (Op_Put bs) = q @ bs"
| "queue_step q (Op_Consume n) = drop (unat n) q"
| "queue_step q Op_Compact = q"

interpretation buf: refined_component buffer_step buffer_ok buffer_wf pending queue_step
proof unfold_locales
  fix b e assume "buffer_wf b" "buffer_ok b e"
  then show "buffer_wf (buffer_step b e)" "pending (buffer_step b e) = queue_step (pending b) e"
    by (cases e; simp add: wf_intros spec_simps write_commit consume_frame_spec compact_spec)+
qed

section \<open>Reassembly of frames from a fragmented stream\<close>

text \<open>
  The interface a reader of framed messages relies on: \<open>put\<close> appends received bytes when
  there is \<open>room\<close>, \<open>next\<close> yields the first complete frame. From these two laws alone the
  frames delivered do not depend on how the stream was cut into reads.
\<close>

fun drain :: "('b \<Rightarrow> ('p \<times> 'b) option) \<Rightarrow> nat \<Rightarrow> 'b \<Rightarrow> 'p list \<times> 'b" where
  "drain next 0 b = ([], b)"
| "drain next (Suc fuel) b =
     (case next b of None \<Rightarrow> ([], b)
      | Some (p, b') \<Rightarrow> let (ps, r) = drain next fuel b' in (p # ps, r))"

fun feed :: "('b \<Rightarrow> u8 list \<Rightarrow> 'b) \<Rightarrow> ('b \<Rightarrow> ('p \<times> 'b) option) \<Rightarrow> nat \<Rightarrow> 'b \<Rightarrow> u8 list list \<Rightarrow> 'p list \<times> 'b" where
  "feed put next fuel b [] = ([], b)"
| "feed put next fuel b (c # cs) =
     (let (ps, b') = drain next fuel (put b c); (qs, r) = feed put next fuel b' cs
      in (ps @ qs, r))"

fun feed_ok :: "('b \<Rightarrow> u8 list \<Rightarrow> bool) \<Rightarrow> ('b \<Rightarrow> u8 list \<Rightarrow> 'b) \<Rightarrow> ('b \<Rightarrow> ('p \<times> 'b) option) \<Rightarrow>
    nat \<Rightarrow> 'b \<Rightarrow> u8 list list \<Rightarrow> bool" where
  "feed_ok room put next fuel b [] = True"
| "feed_ok room put next fuel b (c # cs) =
     (room b c \<and> feed_ok room put next fuel (snd (drain next fuel (put b c))) cs)"

locale frame_reader =
  fixes put :: "'b \<Rightarrow> u8 list \<Rightarrow> 'b"
    and room :: "'b \<Rightarrow> u8 list \<Rightarrow> bool"
    and next_msg :: "'b \<Rightarrow> (u8 list \<times> 'b) option"
    and inv :: "'b \<Rightarrow> bool"
    and contents :: "'b \<Rightarrow> u8 list"
    and mx :: nat
    and size_bound :: nat
  assumes put_inv: "inv b \<Longrightarrow> room b bs \<Longrightarrow> inv (put b bs)"
    and put_contents: "inv b \<Longrightarrow> room b bs \<Longrightarrow> contents (put b bs) = contents b @ bs"
    and contents_bound: "inv b \<Longrightarrow> length (contents b) \<le> size_bound"
    and next_Some: "inv b \<Longrightarrow> decode_frame mx (contents b) = Complete p rest \<Longrightarrow>
      \<exists>b'. next_msg b = Some (p, b') \<and> inv b' \<and> contents b' = rest"
    and next_None: "inv b \<Longrightarrow> \<not> is_Complete (decode_frame mx (contents b)) \<Longrightarrow> next_msg b = None"
begin

lemma drain_decodes:
  assumes "inv b" "length (contents b) < fuel"
  shows "\<exists>b'. drain next_msg fuel b = (fst (decode_stream mx (contents b)), b') \<and> inv b' \<and>
    contents b' = snd (decode_stream mx (contents b))"
  using assms
proof (induction fuel arbitrary: b)
  case 0
  then show ?case by simp
next
  case (Suc fuel)
  show ?case
  proof (cases "decode_frame mx (contents b)")
    case (Complete p rest)
    with Suc.prems obtain b' where b': "next_msg b = Some (p, b')" "inv b'" "contents b' = rest"
      using next_Some by blast
    have "length (contents b') < fuel"
      using Suc.prems decode_Complete_length [OF Complete] b' by simp
    from Suc.IH [OF b'(2) this] b' show ?thesis
      by (auto simp: decode_stream.simps [of mx "contents b"] Complete split: prod.splits)
  qed (use Suc.prems next_None [of b] in
       \<open>auto simp: decode_stream.simps [of mx "contents b"]\<close>)
qed

lemma feed_decodes:
  assumes "inv b" "size_bound < fuel" "feed_ok room put next_msg fuel b cs"
    and "decode_stream mx (contents b) = ([], contents b)"
  shows "\<exists>b'. feed put next_msg fuel b cs = (fst (decode_stream mx (contents b @ concat cs)), b') \<and>
    inv b' \<and> contents b' = snd (decode_stream mx (contents b @ concat cs))"
  using assms
proof (induction cs arbitrary: b)
  case Nil
  then show ?case by simp
next
  case (Cons c cs)
  let ?b = "put b c"
  have pc: "inv ?b" "contents ?b = contents b @ c"
    using Cons.prems put_inv put_contents by auto
  then have "length (contents ?b) < fuel" using contents_bound Cons.prems(2) by fastforce
  from drain_decodes [OF pc(1) this] obtain b1 where
    d: "drain next_msg fuel ?b = (fst (decode_stream mx (contents b @ c)), b1)" "inv b1"
      "contents b1 = snd (decode_stream mx (contents b @ c))"
    using pc(2) by auto
  have idle: "decode_stream mx (contents b1) = ([], contents b1)"
    using decode_stream_append [of mx "contents b @ c" "[]"] d(3)
    by (auto split: prod.splits)
  from d Cons.prems have "feed_ok room put next_msg fuel b1 cs" by simp
  from Cons.IH [OF d(2) Cons.prems(2) this idle] show ?case
    using d decode_stream_append [of mx "contents b @ c" "concat cs"]
    by (auto split: prod.splits)
qed

end

section \<open>Properties\<close>

text \<open>
  C9. Extraction implements the frame format: on the unread bytes of a well-formed buffer it
  answers exactly as the format says, the view it returns covers the body of the frame, and
  consuming the reported number of bytes leaves exactly what follows the frame. The bound on
  the maximum frame size is the one below which the 32-bit total does not wrap.
\<close>

theorem extraction_implements_format:
  assumes wf: "buffer_wf b" and mx: "unat mx \<le> 2 ^ 32 - 5"
  shows "case decode_frame (unat mx) (pending b) of
      Incomplete \<Rightarrow> fst (try_extract_frame b mx) = FS_NeedMoreData
    | BadLength \<Rightarrow> fst (try_extract_frame b mx) = FS_InvalidLength
    | Complete p rest \<Rightarrow> \<exists>v. try_extract_frame b mx = (FS_FrameReady, v) \<and>
        read_span b (fv_payload v) = p \<and> unat (fv_payload_length v) = length p \<and>
        buffer_wf (consume_frame b (ucast (fv_total_frame_bytes v))) \<and>
        pending (consume_frame b (ucast (fv_total_frame_bytes v))) = rest"
proof (cases "decode_frame (unat mx) (pending b)")
  case (Complete p rest)
  have len: "length p \<le> unat mx" using decode_Complete_length [OF Complete] by simp
  then have "unat (word_of_nat (length p) :: u32) = length p"
    using mx by (simp add: unat_of_nat take_bit_eq_mod)
  moreover have "drop (4 + length p) (pending b) = rest"
    using encode_decode [OF Complete] by (simp add: encode_frame_def)
  moreover have "4 + length p < max_vec" using len mx by (simp add: max_vec_def)
  ultimately show ?thesis
    using consume_frame_spec [OF wf, of "ucast (ucast (4 + word_of_nat (length p) :: u64) :: u32)"]
      frame_total_bytes [OF mx len] Complete_payload(1) [OF wf Complete]
    by (simp add: Complete try_extract_frame_spec [OF wf])
qed (simp_all add: try_extract_frame_spec [OF wf])

theorem extraction_implements_format_witness:
  "fst (try_extract_frame \<lparr>storage = [9, 0, 0, 0, 2, 7, 8, 1], read_offset = 1, write_offset = 8\<rparr> 16) =
      FS_FrameReady"
proof -
  let ?b = "\<lparr>storage = [9, 0, 0, 0, 2, 7, 8, 1], read_offset = 1, write_offset = 8\<rparr> :: ReusableBuffer"
  have wf: "buffer_wf ?b" by (simp add: buffer_wf_def max_vec_def)
  have mx: "unat (16 :: u32) \<le> 2 ^ 32 - 5" by simp
  have "decode_frame (unat (16 :: u32)) (pending ?b) = Complete [7, 8] [1]"
    by (simp add: decode_frame_def pending_def be_value_def)
  with extraction_implements_format [OF wf mx] show ?thesis by auto
qed

text \<open>
  C10. The buffer is a queue of bytes: whatever sequence of permitted operations it goes
  through (growing, receiving, consuming, compacting), it stays well-formed and its unread
  bytes are those of the abstract queue under the same operations.
\<close>

theorem buffer_refines_queue:
  assumes "buffer_wf b" and "guarded_run buffer_step buffer_ok b ops"
  shows "buffer_wf (foldl buffer_step b ops) \<and>
    pending (foldl buffer_step b ops) = foldl queue_step (pending b) ops"
  using buf.run_inv [OF assms] buf.run_abs [OF assms] by simp

theorem buffer_refines_queue_witness:
  "pending (foldl buffer_step \<lparr>storage = [0, 0, 0, 0], read_offset = 0, write_offset = 0\<rparr>
    [Op_Put [1, 2, 3], Op_Consume 2, Op_Compact, Op_Put [4, 5]]) = [3, 4, 5]"
proof -
  let ?b = "\<lparr>storage = [0, 0, 0, 0], read_offset = 0, write_offset = 0\<rparr> :: ReusableBuffer"
  have wf: "buffer_wf ?b" by (simp add: buffer_wf_def max_vec_def)
  have "guarded_run buffer_step buffer_ok ?b [Op_Put [1, 2, 3], Op_Consume 2, Op_Compact, Op_Put [4, 5]]"
    by (simp add: vec_size_def writable_region_def write_span_def commit_write_def consume_frame_def
        compact_def readable_bytes_def read_span_def overwrite_def max_vec_def)
  from buffer_refines_queue [OF wf this] show ?thesis by (simp add: pending_def)
qed

text \<open>
  C37. Framing round trip: the extraction finds a ready frame with body \<open>p\<close> exactly when \<open>p\<close> is
  nonempty and of permitted size and the unread bytes begin with the frame that encodes \<open>p\<close>.
\<close>

theorem frame_roundtrip:
  assumes "buffer_wf b" and "unat mx \<le> 2 ^ 32 - 5"
  shows "fst (try_extract_frame b mx) = FS_FrameReady \<and>
      read_span b (fv_payload (snd (try_extract_frame b mx))) = p \<longleftrightarrow>
    p \<noteq> [] \<and> length p \<le> unat mx \<and>
    take (length (encode_frame p)) (pending b) = encode_frame p"
  (is "?L \<longleftrightarrow> ?R")
proof
  assume ?L
  then obtain p' rest where c: "decode_frame (unat mx) (pending b) = Complete p' rest"
    by (auto simp: try_extract_frame_spec [OF assms(1)] split: frame_parse.splits)
  then have "p' = p" using \<open>?L\<close> Complete_payload(1) [OF assms(1) c]
    by (simp add: try_extract_frame_spec [OF assms(1)])
  with encode_decode [OF c] decode_Complete_length [OF c] show ?R by auto
next
  assume r: ?R
  then have "pending b = encode_frame p @ drop (length (encode_frame p)) (pending b)"
    by (metis append_take_drop_id)
  moreover have "unat mx < 2 ^ 32" using assms(2) by simp
  ultimately have c: "decode_frame (unat mx) (pending b) = Complete p (drop (length (encode_frame p)) (pending b))"
    using decode_encode [of p "unat mx"] r by metis
  then show ?L using Complete_payload(1) [OF assms(1) c] by (simp add: try_extract_frame_spec [OF assms(1)])
qed

theorem frame_roundtrip_witness:
  "read_span \<lparr>storage = [9, 0, 0, 0, 2, 7, 8, 1], read_offset = 1, write_offset = 8\<rparr>
    (fv_payload (snd (try_extract_frame \<lparr>storage = [9, 0, 0, 0, 2, 7, 8, 1], read_offset = 1, write_offset = 8\<rparr> 16)))
    = [7, 8]"
proof -
  let ?b = "\<lparr>storage = [9, 0, 0, 0, 2, 7, 8, 1], read_offset = 1, write_offset = 8\<rparr> :: ReusableBuffer"
  have wf: "buffer_wf ?b" by (simp add: buffer_wf_def max_vec_def)
  have mx: "unat (16 :: u32) \<le> 2 ^ 32 - 5" by simp
  have "take (length (encode_frame [7, 8])) (pending ?b) = encode_frame [7, 8]"
    by (simp add: encode_frame_def be_bytes_def pending_def)
  with frame_roundtrip [OF wf mx, of "[7, 8]"] show ?thesis by simp
qed

end
