(* ===== verification/Rtb_Response.thy ===== *)
theory Rtb_Response
  imports Rtb_Decision Rtb_Parse Rtb_Frame
begin

text \<open>
  The answer: \<open>src/response_builder.cc\<close> turns a decision into a \<open>BidResponse\<close>,
  \<open>src/response_framing.cc\<close> writes it as one frame into the send buffer. Serialisation is done
  by the protobuf library (\<open>proto_lib\<close>); what is used of its documentation is the hypothesis
  \<open>serializes\<close>.
\<close>

section \<open>Building the response\<close>

definition to_proto_status :: "BidDecision \<Rightarrow> BidStatus" where
  "to_proto_status decision =
    (if bd_has_bid decision then BID_STATUS_BID else BID_STATUS_NO_BID)"

definition build_bid_response :: "RequestContext \<Rightarrow> BidDecision \<Rightarrow> BidResponse" where
  "build_bid_response request_context decision =
    (let response = empty_BidResponse
       \<lparr>rs_request_id := rc_request_id request_context, rs_status := to_proto_status decision\<rparr> in
     if bd_has_bid decision then response
       \<lparr>rs_campaign_id := to_string (bd_campaign_id decision),
        rs_creative_id := to_string (bd_creative_id decision),
        rs_price := bd_bid_price decision\<rparr>
     else response)"

section \<open>Staging the frame\<close>

definition stage_response_frame ::
  "proto_lib \<Rightarrow> BidResponse \<Rightarrow> ReusableBuffer \<Rightarrow> bool \<times> ReusableBuffer" where
  "stage_response_frame lib response buffer =
    (let payload_size = ByteSizeLong lib response in
     if payload_size = 0 \<or> payload_size > ucast kMaxOutboundFrameSize \<or>
        payload_size > word_of_nat int_max
     then (False, buffer)
     else if readable_bytes buffer \<noteq> 0 then (False, buffer)
     else
       let total_frame_size = 4 + payload_size;
           buffer = reserve buffer total_frame_size in
       if vec_size (storage buffer) < total_frame_size then (False, buffer)
       else
         let buffer = buffer\<lparr>read_offset := 0, write_offset := 0\<rparr>;
             network_payload_size = htonl (ucast payload_size);
             buffer = write_span buffer 0 (store32 network_payload_size);
             (ok, bytes) = SerializeToArray lib response payload_size;
             buffer = write_span buffer 4 bytes in
         if \<not> ok then (False, buffer\<lparr>read_offset := 0, write_offset := 0\<rparr>)
         else (True, buffer\<lparr>write_offset := total_frame_size\<rparr>))"

section \<open>What the library promises\<close>

text \<open>
  Documented: \<open>SerializeToArray\<close> never writes more than the size it is given; given the size
  \<open>ByteSizeLong\<close> reports (of a message below two gigabytes) it succeeds and writes exactly
  that many bytes.
\<close>

definition serializes :: "proto_lib \<Rightarrow> bool" where
  "serializes lib \<longleftrightarrow>
    (\<forall>r n. length (snd (SerializeToArray lib r n)) \<le> unat n) \<and>
    (\<forall>r. unat (ByteSizeLong lib r) \<le> int_max \<longrightarrow>
      fst (SerializeToArray lib r (ByteSizeLong lib r)) \<and>
      length (snd (SerializeToArray lib r (ByteSizeLong lib r))) = unat (ByteSizeLong lib r))"

text \<open>The bytes of a response.\<close>

definition payload_of :: "proto_lib \<Rightarrow> BidResponse \<Rightarrow> u8 list" where
  "payload_of lib r = snd (SerializeToArray lib r (ByteSizeLong lib r))"

definition stageable :: "proto_lib \<Rightarrow> BidResponse \<Rightarrow> bool" where
  "stageable lib r \<longleftrightarrow> 0 < unat (ByteSizeLong lib r) \<and> unat (ByteSizeLong lib r) \<le> 65536"

section \<open>Lemmas\<close>

lemma readable_zero_iff: "buffer_wf b \<Longrightarrow> readable_bytes b = 0 \<longleftrightarrow> pending b = []"
proof -
  assume "buffer_wf b"
  then have "length (pending b) = unat (readable_bytes b)" by (simp add: buffer_wfD)
  then show ?thesis by (metis length_0_conv unat_eq_zero)
qed

lemma serialize_stageable:
  assumes "serializes lib" "stageable lib r"
  shows "fst (SerializeToArray lib r (ByteSizeLong lib r))"
    and "length (payload_of lib r) = unat (ByteSizeLong lib r)" and "payload_of lib r \<noteq> []"
proof -
  have n: "0 < unat (ByteSizeLong lib r)" "unat (ByteSizeLong lib r) \<le> int_max"
    using assms(2) by (simp_all add: stageable_def int_max_def)
  then show "fst (SerializeToArray lib r (ByteSizeLong lib r))"
    and len: "length (payload_of lib r) = unat (ByteSizeLong lib r)"
    using assms(1) unfolding serializes_def payload_of_def by blast+
  show "payload_of lib r \<noteq> []" using n(1) len by auto
qed

lemma stage_checks:
  fixes payload_size :: u64
  shows "payload_size = 0 \<or> payload_size > ucast kMaxOutboundFrameSize \<or> payload_size > word_of_nat int_max
    \<longleftrightarrow> \<not> (0 < unat payload_size \<and> unat payload_size \<le> 65536)"
proof -
  have "unat (word_of_nat int_max :: u64) = int_max" "unat (ucast kMaxOutboundFrameSize :: u64) = 65536"
    by (simp_all add: int_max_def width_simps kMaxOutboundFrameSize_def)
  then show ?thesis
    by (auto simp: word_less_nat_alt int_max_def unat_eq_0)
qed

lemma staged_storage:
  assumes "length h = 4" "4 + length p \<le> length st"
  shows "take (4 + length p) (overwrite (overwrite st 0 h) 4 p) = h @ p"
  using assms by (simp add: overwrite_def)

lemma stage_response_frame_spec:
  assumes wf: "buffer_wf b" and lib: "serializes lib"
  shows "fst (stage_response_frame lib r b) \<longleftrightarrow> stageable lib r \<and> pending b = []"
    and "buffer_wf (snd (stage_response_frame lib r b))"
    and "pending (snd (stage_response_frame lib r b)) =
      (if fst (stage_response_frame lib r b) then encode_frame (payload_of lib r) else pending b)"
proof -
  define n where "n = ByteSizeLong lib r"
  have "fst (stage_response_frame lib r b) = (stageable lib r \<and> pending b = []) \<and>
    buffer_wf (snd (stage_response_frame lib r b)) \<and>
    pending (snd (stage_response_frame lib r b)) =
      (if fst (stage_response_frame lib r b) then encode_frame (payload_of lib r) else pending b)"
  proof (cases "stageable lib r \<and> pending b = []")
    case False
    then have "stage_response_frame lib r b = (False, b)"
      using stage_checks [of n] readable_zero_iff [OF wf]
      by (auto simp: stage_response_frame_def Let_def stageable_def n_def)
    then show ?thesis using False wf by simp
  next
    case True
    then have n: "0 < unat n" "unat n \<le> 65536" by (simp_all add: stageable_def n_def)
    then have tot: "unat (4 + n) = 4 + unat n"
      by (subst unat_add_no_wrap) simp_all
    define bs where "bs = payload_of lib r"
    have ser: "SerializeToArray lib r n = (True, bs)" "length bs = unat n"
      using serialize_stageable [OF lib, of r] True
      by (auto simp: bs_def n_def payload_of_def intro: prod_eqI)
    define b1 where "b1 = reserve b (4 + n)"
    have b1: "buffer_wf b1" "4 + unat n \<le> length (storage b1)"
      using reserve_wf [OF wf, of "4 + n"] reserve_size [OF wf, of "4 + n"] tot n
      by (simp_all add: b1_def max_vec_def)
    then have "\<not> vec_size (storage b1) < 4 + n"
      using tot by (simp add: word_less_nat_alt buffer_wfD)
    then have st: "stage_response_frame lib r b = (True,
        b1\<lparr>storage := overwrite (overwrite (storage b1) 0 (store32 (htonl (ucast n)))) 4 bs,
           read_offset := 0, write_offset := 4 + n\<rparr>)"
      using True stage_checks [of n] n readable_zero_iff [OF wf] ser
      by (simp add: stage_response_frame_def Let_def n_def [symmetric] b1_def write_span_def)
    have "unat (ucast n :: u32) = unat n"
      using n by (simp add: unsigned_ucast_eq unsigned_take_bit_eq take_bit_nat_eq_self)
    then have hdr: "store32 (htonl (ucast n)) = be_bytes (unat n)" by (simp add: store_htonl)
    show ?thesis
      using True b1 tot ser(2) staged_storage [of "be_bytes (unat n)" bs "storage b1"]
      by (simp add: st hdr pending_def buffer_wf_def encode_frame_def bs_def [symmetric])
  qed
  then show "fst (stage_response_frame lib r b) \<longleftrightarrow> stageable lib r \<and> pending b = []"
    and "buffer_wf (snd (stage_response_frame lib r b))"
    and "pending (snd (stage_response_frame lib r b)) =
      (if fst (stage_response_frame lib r b) then encode_frame (payload_of lib r) else pending b)"
    by blast+
qed

lemma build_response_fields:
  "rs_request_id (build_bid_response rc d) = rc_request_id rc"
  "rs_status (build_bid_response rc d) = (if bd_has_bid d then BID_STATUS_BID else BID_STATUS_NO_BID)"
  "rs_campaign_id (build_bid_response rc d) = (if bd_has_bid d then to_string (bd_campaign_id d) else '''')"
  "rs_creative_id (build_bid_response rc d) = (if bd_has_bid d then to_string (bd_creative_id d) else '''')"
  "rs_price (build_bid_response rc d) = (if bd_has_bid d then bd_bid_price d else 0)"
  by (simp_all add: build_bid_response_def to_proto_status_def empty_BidResponse_def Let_def)

section \<open>Properties\<close>

text \<open>
  C11. A staged response is read back: after staging into an empty buffer, the unread bytes are
  one frame whose body is the serialised response, and nothing else.
\<close>

theorem staged_response_is_one_frame:
  assumes "serializes lib" and "buffer_wf b" and "pending b = []" and "stageable lib r"
  shows "fst (stage_response_frame lib r b) \<and>
    decode_frame 65536 (pending (snd (stage_response_frame lib r b))) = Complete (payload_of lib r) []"
proof -
  note st = stage_response_frame_spec [OF assms(2,1), of r]
  have "payload_of lib r \<noteq> []" "length (payload_of lib r) \<le> 65536"
    using serialize_stageable [OF assms(1,4)] assms(4) by (simp_all add: stageable_def)
  then show ?thesis
    using st assms(3,4) decode_encode [of "payload_of lib r" 65536 "[]"] by simp
qed

lemma sample_lib_serializes: "serializes sample_lib"
  by (simp add: serializes_def sample_lib_def)

lemma sample_lib_stageable: "stageable sample_lib r"
  by (simp add: stageable_def sample_lib_def)

theorem staged_response_is_one_frame_witness:
  "decode_frame 65536 (pending (snd (stage_response_frame sample_lib empty_BidResponse empty_buffer))) =
    Complete [7, 7] []"
proof -
  have "replicate 2 7 = [7, 7 :: u8]" by (simp add: numeral_2_eq_2)
  then have "payload_of sample_lib empty_BidResponse = [7, 7]"
    by (simp add: payload_of_def sample_lib_def)
  then show ?thesis
    using staged_response_is_one_frame [OF sample_lib_serializes buffer_wf_empty pending_empty
        sample_lib_stageable [of empty_BidResponse]] by simp
qed

text \<open>
  C12. Staging is all or nothing: it succeeds exactly for a response of a permitted size into a
  buffer without unread bytes, it always leaves a well-formed buffer, and a failure leaves the
  unread bytes as they were, never a part of a frame.
\<close>

theorem staging_all_or_nothing:
  assumes "serializes lib" and "buffer_wf b"
  shows "(fst (stage_response_frame lib r b) \<longleftrightarrow>
      0 < unat (ByteSizeLong lib r) \<and> unat (ByteSizeLong lib r) \<le> 65536 \<and> pending b = []) \<and>
    buffer_wf (snd (stage_response_frame lib r b)) \<and>
    (if fst (stage_response_frame lib r b) then True
     else pending (snd (stage_response_frame lib r b)) = pending b)"
  using stage_response_frame_spec [OF assms(2,1), of r] by (auto simp: stageable_def)

theorem staging_all_or_nothing_witness:
  "\<not> fst (stage_response_frame sample_lib empty_BidResponse
      \<lparr>storage = [1, 2], read_offset = 0, write_offset = 2\<rparr>) \<and>
    pending (snd (stage_response_frame sample_lib empty_BidResponse
      \<lparr>storage = [1, 2], read_offset = 0, write_offset = 2\<rparr>)) = [1, 2]"
proof -
  let ?b = "\<lparr>storage = [1, 2], read_offset = 0, write_offset = 2\<rparr> :: ReusableBuffer"
  have wf: "buffer_wf ?b" by (simp add: buffer_wf_def max_vec_def)
  have "pending ?b = [1, 2]" by (simp add: pending_def)
  then show ?thesis
    using staging_all_or_nothing [OF sample_lib_serializes wf, of empty_BidResponse] by simp
qed

text \<open>
  C40. The response says what was decided: it repeats the request id, carries a bid exactly for
  a decision with one, and its ids read back as the numbers of the decision.
\<close>

theorem response_carries_decision:
  "rs_request_id (build_bid_response rc d) = rc_request_id rc \<and>
    (if bd_has_bid d
     then rs_status (build_bid_response rc d) = BID_STATUS_BID \<and>
       parse_u64 (rs_campaign_id (build_bid_response rc d)) = Some (bd_campaign_id d) \<and>
       parse_u64 (rs_creative_id (build_bid_response rc d)) = Some (bd_creative_id d) \<and>
       rs_price (build_bid_response rc d) = bd_bid_price d
     else rs_status (build_bid_response rc d) = BID_STATUS_NO_BID \<and>
       rs_campaign_id (build_bid_response rc d) = [] \<and> rs_creative_id (build_bid_response rc d) = [] \<and>
       rs_price (build_bid_response rc d) = 0)"
  by (simp add: build_response_fields parse_to_string)

end
