(* ===== verification/Rtb_Benchmark.thy ===== *)
theory Rtb_Benchmark
  imports Rtb_Prelude Rtb_Float
begin

text \<open>
  Timing records and their statistics: \<open>include/rtb/benchmark.h\<close> and \<open>src/benchmark.cc\<close>.
  The recorder is a mutex around a vector, so concurrent use by the workers is a sequence of
  whole operations. The significand width of \<open>long double\<close> differs between the targets (64
  bits on x86-64, 113 on AArch64) and is a parameter of the average. \<open>Rtb_Report\<close> writes
  a summary out as text and as JSON.
\<close>

section \<open>Records\<close>

record HandleRequestTimingBreakdown =
  ht_normalize_validate_ns :: u64
  ht_retrieve_ns :: u64
  ht_decide_ns :: u64
  ht_response_build_ns :: u64

definition empty_handle_timing :: HandleRequestTimingBreakdown where
  "empty_handle_timing =
    \<lparr>ht_normalize_validate_ns = 0, ht_retrieve_ns = 0, ht_decide_ns = 0, ht_response_build_ns = 0\<rparr>"

record RequestTimingBreakdown =
  rt_parse_ns :: u64
  rt_normalize_validate_ns :: u64
  rt_retrieve_ns :: u64
  rt_decide_ns :: u64
  rt_response_build_ns :: u64
  rt_response_stage_ns :: u64
  rt_total_internal_ns :: u64

record BenchmarkPhaseSummary =
  ps_count :: u64
  ps_min_ns :: u64
  ps_max_ns :: u64
  ps_avg_ns :: f64
  ps_p50_ns :: u64
  ps_p95_ns :: u64
  ps_p99_ns :: u64

definition empty_phase_summary :: BenchmarkPhaseSummary where
  "empty_phase_summary =
    \<lparr>ps_count = 0, ps_min_ns = 0, ps_max_ns = 0, ps_avg_ns = 0, ps_p50_ns = 0, ps_p95_ns = 0,
     ps_p99_ns = 0\<rparr>"

record BenchmarkSummary =
  bs_request_count :: u64
  bs_parse :: BenchmarkPhaseSummary
  bs_normalize_validate :: BenchmarkPhaseSummary
  bs_retrieve :: BenchmarkPhaseSummary
  bs_decide :: BenchmarkPhaseSummary
  bs_response_build :: BenchmarkPhaseSummary
  bs_response_stage :: BenchmarkPhaseSummary
  bs_total_internal :: BenchmarkPhaseSummary

section \<open>The recorder\<close>

record BenchmarkRecorder =
  br_request_limit :: u64
  br_requests :: "RequestTimingBreakdown list"

definition new_recorder :: "u64 \<Rightarrow> BenchmarkRecorder" where
  "new_recorder request_limit = \<lparr>br_request_limit = request_limit, br_requests = []\<rparr>"

definition record_request :: "BenchmarkRecorder \<Rightarrow> RequestTimingBreakdown \<Rightarrow> BenchmarkRecorder" where
  "record_request r timing = r\<lparr>br_requests := br_requests r @ [timing]\<rparr>"

definition completed_requests :: "BenchmarkRecorder \<Rightarrow> u64" where
  "completed_requests r = vec_size (br_requests r)"

definition request_limit_reached :: "BenchmarkRecorder \<Rightarrow> bool" where
  "request_limit_reached r \<longleftrightarrow>
    br_request_limit r \<noteq> 0 \<and> completed_requests r \<ge> br_request_limit r"

section \<open>Statistics\<close>

text \<open>\<open>values[index]\<close> out of range is undefined behaviour: \<open>None\<close>.\<close>

definition percentile_value :: "u64 list \<Rightarrow> f64 \<Rightarrow> u64 option" where
  "percentile_value xs percentile =
    (if xs = [] then Some 0
     else
       let sorted_values = sort xs;
           index = nat \<lfloor>f64_mul percentile (f64_of_rat (of_nat (length xs - 1)))\<rfloor> in
       if index < length sorted_values then Some (sorted_values ! index) else None)"

text \<open>Rounding to \<open>long double\<close> with \<open>ldp\<close> significant bits.\<close>

definition ld_round :: "nat \<Rightarrow> rat \<Rightarrow> rat" where
  "ld_round ldp x = round_to ldp (-16445) x"

definition u64_value :: "u64 \<Rightarrow> rat" where
  "u64_value w = of_int (uint w)"

text \<open>The loop of \<open>summarize_phase\<close>: minimum, maximum and the running total.\<close>

fun phase_loop :: "nat \<Rightarrow> u64 list \<Rightarrow> u64 \<Rightarrow> u64 \<Rightarrow> rat \<Rightarrow> u64 \<times> u64 \<times> rat" where
  "phase_loop ldp [] min_value max_value sum_ns = (min_value, max_value, sum_ns)"
| "phase_loop ldp (v # vs) min_value max_value sum_ns =
     phase_loop ldp vs (min min_value v) (max max_value v)
       (ld_round ldp (sum_ns + ld_round ldp (u64_value v)))"

definition summarize_phase ::
  "nat \<Rightarrow> RequestTimingBreakdown list \<Rightarrow> (RequestTimingBreakdown \<Rightarrow> u64) \<Rightarrow>
    BenchmarkPhaseSummary option" where
  "summarize_phase ldp requests accessor =
    (case requests of
       [] \<Rightarrow> Some empty_phase_summary
     | front # _ \<Rightarrow>
         let xs = map accessor requests;
             (min_value, max_value, sum_ns) = phase_loop ldp xs (accessor front) (accessor front) 0;
             avg = f64_of_rat (ld_round ldp (sum_ns / ld_round ldp (of_nat (length xs)))) in
         case (percentile_value xs (f64_of_rat (50 / 100)),
               percentile_value xs (f64_of_rat (95 / 100)),
               percentile_value xs (f64_of_rat (99 / 100))) of
           (Some p50, Some p95, Some p99) \<Rightarrow> Some
             \<lparr>ps_count = vec_size xs, ps_min_ns = min_value, ps_max_ns = max_value,
              ps_avg_ns = avg, ps_p50_ns = p50, ps_p95_ns = p95, ps_p99_ns = p99\<rparr>
         | _ \<Rightarrow> None)"

definition summarize :: "nat \<Rightarrow> BenchmarkRecorder \<Rightarrow> BenchmarkSummary option" where
  "summarize ldp r =
    (let requests = br_requests r; phase = summarize_phase ldp requests in
     case (phase rt_parse_ns, phase rt_normalize_validate_ns, phase rt_retrieve_ns,
           phase rt_decide_ns, phase rt_response_build_ns, phase rt_response_stage_ns,
           phase rt_total_internal_ns) of
       (Some a, Some b, Some c, Some d, Some e, Some f, Some g) \<Rightarrow> Some
         \<lparr>bs_request_count = vec_size requests, bs_parse = a, bs_normalize_validate = b,
          bs_retrieve = c, bs_decide = d, bs_response_build = e, bs_response_stage = f,
          bs_total_internal = g\<rparr>
     | _ \<Rightarrow> None)"

section \<open>Lemmas: percentiles\<close>

definition percentile_index :: "nat \<Rightarrow> f64 \<Rightarrow> nat" where
  "percentile_index n p = nat \<lfloor>f64_mul p (f64_of_rat (of_nat (n - 1)))\<rfloor>"

lemma percentile_index_bound:
  assumes "0 < n" "n \<le> 2 ^ 53" "0 \<le> p" "p \<le> 1"
  shows "percentile_index n p < n"
proof -
  have ex: "f64_of_rat (of_nat (n - 1)) = of_nat (n - 1)"
    using assms by (intro f64_of_nat_exact) simp
  have "f64_mul p (of_nat (n - 1)) \<le> f64_of_rat (of_nat (n - 1))"
    unfolding f64_mul_def using assms by (intro f64_of_rat_mono) (auto intro: mult_left_le_one_le)
  then have "\<lfloor>f64_mul p (of_nat (n - 1))\<rfloor> \<le> int (n - 1)"
    unfolding ex by (metis floor_mono floor_of_nat)
  then have "percentile_index n p \<le> n - 1"
    unfolding percentile_index_def ex nat_le_iff .
  then show ?thesis using assms(1) by simp
qed

lemma percentile_index_mono:
  assumes "0 \<le> p" "p \<le> q"
  shows "percentile_index n p \<le> percentile_index n q"
proof -
  have "0 \<le> f64_of_rat (of_nat (n - 1))" by (simp add: f64_of_rat_nonneg)
  then have "f64_mul p (f64_of_rat (of_nat (n - 1))) \<le> f64_mul q (f64_of_rat (of_nat (n - 1)))"
    unfolding f64_mul_def using assms by (intro f64_of_rat_mono mult_right_mono) auto
  then show ?thesis unfolding percentile_index_def by (intro nat_mono floor_mono)
qed

lemma percentile_value_nth:
  assumes "xs \<noteq> []" "length xs \<le> 2 ^ 53" "0 \<le> p" "p \<le> 1"
  shows "percentile_value xs p = Some (sort xs ! percentile_index (length xs) p)"
proof -
  have "percentile_index (length xs) p < length xs"
    using assms by (intro percentile_index_bound) simp_all
  then show ?thesis
    using assms(1)
    by (simp only: percentile_value_def percentile_index_def Let_def length_sort if_False if_True)
qed

lemma percentile_literals:
  "0 \<le> f64_of_rat (50 / 100)" "f64_of_rat (50 / 100) \<le> f64_of_rat (95 / 100)"
  "f64_of_rat (95 / 100) \<le> f64_of_rat (99 / 100)" "f64_of_rat (99 / 100) \<le> 1"
proof -
  have "f64_of_rat (50 / 100) = 1 / 2" "f64_of_rat (95 / 100) = 4278419646001971 / 4503599627370496"
    "f64_of_rat (99 / 100) = 4458563631096791 / 4503599627370496" by code_simp+
  then show "0 \<le> f64_of_rat (50 / 100)" "f64_of_rat (50 / 100) \<le> f64_of_rat (95 / 100)"
    "f64_of_rat (95 / 100) \<le> f64_of_rat (99 / 100)" "f64_of_rat (99 / 100) \<le> 1"
    by simp_all
qed

section \<open>Lemmas: the phase loop\<close>

lemma u64_value_exact:
  assumes "64 \<le> ldp"
  shows "ld_round ldp (u64_value w) = u64_value w"
proof -
  have "uint w < 2 ^ 64" using unsigned_less [of w, where 'a = int] by simp
  also have "(2::int) ^ 64 \<le> 2 ^ ldp" using assms by (intro power_increasing) auto
  finally show ?thesis
    unfolding ld_round_def u64_value_def using assms by (intro round_to_int_exact) auto
qed

lemma ld_round_int:
  "64 \<le> ldp \<Longrightarrow> 0 \<le> n \<Longrightarrow> n < 2 ^ 64 \<Longrightarrow> ld_round ldp (of_int n) = of_int n"
proof -
  assume a: "64 \<le> ldp" "0 \<le> n" "n < 2 ^ 64"
  have "(2::int) ^ 64 \<le> 2 ^ ldp" using a by (intro power_increasing) auto
  then show ?thesis
    using a unfolding ld_round_def by (intro round_to_int_exact) auto
qed

lemma phase_loop_min_max:
  "fst (phase_loop ldp xs a b t) = Min (set (a # xs)) \<and>
    fst (snd (phase_loop ldp xs a b t)) = Max (set (b # xs))"
proof (induction xs arbitrary: a b t)
  case (Cons x xs)
  have "Min (set (min a x # xs)) = Min (set (a # x # xs))"
    and "Max (set (max b x # xs)) = Max (set (b # x # xs))"
    by (cases "xs = []"; simp add: min.assoc max.assoc)+
  then show ?case using Cons [of "min a x" "max b x"] by simp
qed simp

text \<open>While the sum stays below \<open>2 ^ 64\<close> no addition rounds.\<close>

lemma phase_loop_total:
  assumes "64 \<le> ldp" "0 \<le> t" "t + sum_list (map uint xs) < 2 ^ 64"
  shows "snd (snd (phase_loop ldp xs a b (of_int t))) = of_int (t + sum_list (map uint xs))"
  using assms(2,3)
proof (induction xs arbitrary: a b t)
  case (Cons x xs)
  have nn: "0 \<le> sum_list (map uint ys)" for ys :: "u64 list"
    by (induction ys) auto
  have "0 \<le> t + uint x" and lt: "t + uint x < 2 ^ 64"
    using Cons.prems nn [of xs] by auto
  then have "ld_round ldp (of_int t + ld_round ldp (u64_value x)) = of_int (t + uint x)"
    using ld_round_int [OF assms(1), of "t + uint x"] u64_value_exact [OF assms(1), of x]
    by (simp add: u64_value_def)
  then show ?case
    using Cons.IH [of "t + uint x"] Cons.prems \<open>0 \<le> t + uint x\<close> by (simp add: add.assoc)
qed simp

section \<open>Lemmas: a phase summary\<close>

lemma sort_nth_between:
  fixes xs :: "u64 list"
  assumes "i < length xs"
  shows "Min (set xs) \<le> sort xs ! i" "sort xs ! i \<le> Max (set xs)"
proof -
  have "sort xs ! i \<in> set xs" using assms by (metis length_sort nth_mem set_sort)
  then show "Min (set xs) \<le> sort xs ! i" "sort xs ! i \<le> Max (set xs)" by simp_all
qed

lemma summarize_phase_Some:
  fixes f :: "RequestTimingBreakdown \<Rightarrow> u64" and ldp :: nat
  assumes "rs \<noteq> []" "length rs \<le> 2 ^ 53"
  defines "xs \<equiv> map f rs"
  shows "\<exists>s. summarize_phase ldp rs f = Some s \<and>
    ps_count s = vec_size rs \<and> ps_min_ns s = Min (set xs) \<and> ps_max_ns s = Max (set xs) \<and>
    ps_p50_ns s = sort xs ! percentile_index (length xs) (f64_of_rat (50 / 100)) \<and>
    ps_p95_ns s = sort xs ! percentile_index (length xs) (f64_of_rat (95 / 100)) \<and>
    ps_p99_ns s = sort xs ! percentile_index (length xs) (f64_of_rat (99 / 100)) \<and>
    ps_avg_ns s = f64_of_rat (ld_round ldp
      (snd (snd (phase_loop ldp xs (hd xs) (hd xs) 0)) / ld_round ldp (of_nat (length xs))))"
proof -
  obtain r rest where rs: "rs = r # rest" using assms(1) by (cases rs) auto
  obtain lo hi t where loop: "phase_loop ldp xs (f r) (f r) 0 = (lo, hi, t)"
    using prod_cases3 by blast
  have lohi: "lo = Min (set xs)" "hi = Max (set xs)"
    using phase_loop_min_max [of ldp xs "f r" "f r" 0] loop
    by (simp_all add: xs_def rs insert_absorb)
  have "percentile_value xs q = Some (sort xs ! percentile_index (length xs) q)"
    if "0 \<le> q" "q \<le> 1" for q
    using assms(1,2) that by (intro percentile_value_nth) (simp_all add: xs_def)
  note p = this [of "f64_of_rat (50 / 100)"] this [of "f64_of_rat (95 / 100)"]
    this [of "f64_of_rat (99 / 100)"]
  have q: "0 \<le> f64_of_rat (50 / 100)" "f64_of_rat (50 / 100) \<le> 1" "0 \<le> f64_of_rat (95 / 100)"
    "f64_of_rat (95 / 100) \<le> 1" "0 \<le> f64_of_rat (99 / 100)" "f64_of_rat (99 / 100) \<le> 1"
    using percentile_literals by linarith+
  have size: "vec_size xs = vec_size rs" by (simp add: vec_size_def xs_def)
  have "summarize_phase ldp rs f = Some
      \<lparr>ps_count = vec_size xs, ps_min_ns = lo, ps_max_ns = hi,
       ps_avg_ns = f64_of_rat (ld_round ldp (t / ld_round ldp (of_nat (length xs)))),
       ps_p50_ns = sort xs ! percentile_index (length xs) (f64_of_rat (50 / 100)),
       ps_p95_ns = sort xs ! percentile_index (length xs) (f64_of_rat (95 / 100)),
       ps_p99_ns = sort xs ! percentile_index (length xs) (f64_of_rat (99 / 100))\<rparr>"
    using p(1) [OF q(1,2)] p(2) [OF q(3,4)] p(3) [OF q(5,6)] loop
    unfolding summarize_phase_def xs_def rs by simp
  then show ?thesis
    using lohi size loop by (simp add: xs_def rs)
qed

text \<open>The average lies between the extremes, each converted to \<open>double\<close>.\<close>

lemma sum_list_between:
  fixes xs :: "u64 list"
  assumes "xs \<noteq> []"
  shows "int (length xs) * uint (Min (set xs)) \<le> sum_list (map uint xs)"
    and "sum_list (map uint xs) \<le> int (length xs) * uint (Max (set xs))"
proof -
  have lo: "\<forall>x \<in> set ys. a \<le> uint x \<Longrightarrow> int (length ys) * a \<le> sum_list (map uint ys)"
    and hi: "\<forall>x \<in> set ys. uint x \<le> a \<Longrightarrow> sum_list (map uint ys) \<le> int (length ys) * a"
    for a and ys :: "u64 list"
    by (induction ys) (auto simp: distrib_right)
  show "int (length xs) * uint (Min (set xs)) \<le> sum_list (map uint xs)"
    by (rule lo) (auto simp flip: word_le_def)
  show "sum_list (map uint xs) \<le> int (length xs) * uint (Max (set xs))"
    by (rule hi) (auto simp flip: word_le_def)
qed

lemma average_between:
  fixes xs :: "u64 list" and a b :: u64
  assumes "xs \<noteq> []" "length xs \<le> 2 ^ 53" "64 \<le> ldp" "sum_list (map uint xs) < 2 ^ 64"
  defines "avg \<equiv> f64_of_rat (ld_round ldp
      (snd (snd (phase_loop ldp xs a b 0)) / ld_round ldp (of_nat (length xs))))"
  shows "f64_of_rat (u64_value (Min (set xs))) \<le> avg \<and> avg \<le> f64_of_rat (u64_value (Max (set xs)))"
proof -
  define n where "n = length xs"
  define s where "s = sum_list (map uint xs)"
  have n: "0 < n" using assms(1) by (simp add: n_def)
  have "snd (snd (phase_loop ldp xs a b 0)) = of_int s"
    using phase_loop_total [of ldp 0 xs a b] assms by (simp add: s_def)
  moreover have "ld_round ldp (of_nat n) = of_nat n"
    using ld_round_int [of ldp "int n"] assms by (simp add: n_def)
  ultimately have avg: "avg = f64_of_rat (ld_round ldp (of_int s / of_nat n))"
    by (simp add: avg_def n_def)
  have lo: "u64_value (Min (set xs)) \<le> of_int s / of_nat n"
  proof -
    have "of_int (int n * uint (Min (set xs))) \<le> (of_int s :: rat)"
      using sum_list_between(1) [OF assms(1)] unfolding of_int_le_iff by (simp add: n_def s_def)
    then show ?thesis using n by (simp add: u64_value_def field_simps)
  qed
  have hi: "of_int s / of_nat n \<le> u64_value (Max (set xs))"
  proof -
    have "(of_int s :: rat) \<le> of_int (int n * uint (Max (set xs)))"
      using sum_list_between(2) [OF assms(1)] unfolding of_int_le_iff by (simp add: n_def s_def)
    then show ?thesis using n by (simp add: u64_value_def field_simps)
  qed
  have nn: "0 \<le> u64_value w" for w
    unfolding u64_value_def of_int_0_le_iff by (rule unsigned_greater_eq)
  have "u64_value (Min (set xs)) \<le> ld_round ldp (of_int s / of_nat n)"
    using round_to_mono [OF _ nn lo, of ldp "-16445"] u64_value_exact assms(3)
    by (simp add: ld_round_def)
  moreover have "ld_round ldp (of_int s / of_nat n) \<le> u64_value (Max (set xs))"
    using round_to_mono [OF _ _ hi, of ldp "-16445"] u64_value_exact assms(3) order_trans [OF nn lo]
    by (simp add: ld_round_def)
  ultimately show ?thesis
    unfolding avg using f64_of_rat_mono nn order_trans by metis
qed

lemma summary_ordered:
  assumes "rs \<noteq> []" and "length rs \<le> 2 ^ 53"
  shows "\<exists>s. summarize_phase ldp rs f = Some s \<and>
    ps_min_ns s = Min (set (map f rs)) \<and> ps_max_ns s = Max (set (map f rs)) \<and>
    ps_min_ns s \<le> ps_p50_ns s \<and> ps_p50_ns s \<le> ps_p95_ns s \<and> ps_p95_ns s \<le> ps_p99_ns s \<and>
    ps_p99_ns s \<le> ps_max_ns s"
proof -
  define xs where "xs = map f rs"
  have n: "0 < length xs" "length xs \<le> 2 ^ 53" using assms by (simp_all add: xs_def)
  obtain s where s: "summarize_phase ldp rs f = Some s" "ps_min_ns s = Min (set xs)" "ps_max_ns s = Max (set xs)"
    "ps_p50_ns s = sort xs ! percentile_index (length xs) (f64_of_rat (50 / 100))"
    "ps_p95_ns s = sort xs ! percentile_index (length xs) (f64_of_rat (95 / 100))"
    "ps_p99_ns s = sort xs ! percentile_index (length xs) (f64_of_rat (99 / 100))"
    using summarize_phase_Some [OF assms, of ldp f] unfolding xs_def by auto
  note lit = percentile_literals
  have i: "percentile_index (length xs) (f64_of_rat (50 / 100)) < length xs"
    "percentile_index (length xs) (f64_of_rat (95 / 100)) < length xs"
    "percentile_index (length xs) (f64_of_rat (99 / 100)) < length xs"
    using lit percentile_index_bound [OF n] by (meson order_trans)+
  have m: "percentile_index (length xs) (f64_of_rat (50 / 100)) \<le> percentile_index (length xs) (f64_of_rat (95 / 100))"
    "percentile_index (length xs) (f64_of_rat (95 / 100)) \<le> percentile_index (length xs) (f64_of_rat (99 / 100))"
    using lit by (auto intro!: percentile_index_mono order_trans [OF lit(1,2)])
  have "sort xs ! j \<le> sort xs ! k" if "j \<le> k" "k < length xs" for j k
    using that by (intro sorted_nth_mono) simp_all
  then show ?thesis
    using s i m sort_nth_between [OF i(1)] sort_nth_between [OF i(3)] unfolding xs_def by auto
qed

lemma summary_average:
  assumes "rs \<noteq> []" and "length rs \<le> 2 ^ 53" and "64 \<le> ldp"
    and "sum_list (map (\<lambda>r. uint (f r)) rs) < 2 ^ 64" and "summarize_phase ldp rs f = Some s"
  shows "f64_of_rat (u64_value (ps_min_ns s)) \<le> ps_avg_ns s \<and> ps_avg_ns s \<le> f64_of_rat (u64_value (ps_max_ns s))"
proof -
  have "map f rs \<noteq> []" "length (map f rs) \<le> 2 ^ 53" "sum_list (map uint (map f rs)) < 2 ^ 64"
    using assms by (simp_all add: o_def)
  from average_between [OF this(1,2) assms(3) this(3)] show ?thesis
    using summarize_phase_Some [OF assms(1,2), of ldp f] assms(5) by (metis option.inject)
qed

section \<open>Properties\<close>

definition sample_timing :: "u64 \<Rightarrow> RequestTimingBreakdown" where
  "sample_timing n =
    \<lparr>rt_parse_ns = n, rt_normalize_validate_ns = 1, rt_retrieve_ns = 2, rt_decide_ns = 3,
     rt_response_build_ns = 4, rt_response_stage_ns = 5, rt_total_internal_ns = n + 15\<rparr>"

text \<open>
  C39. A summary is in order: for any nonempty set of records (up to \<open>2 ^ 53\<close>), no access to the
  sorted values is out of range, and the minimum, the three percentiles and the maximum of a
  phase are in this order; the average, although summed and divided in rounded arithmetic, is
  between the minimum and the maximum as doubles while the sum fits 64 bits.
\<close>

theorem summary_in_order:
  assumes "rs \<noteq> []" and "length rs \<le> 2 ^ 53" and "64 \<le> ldp"
  shows "\<exists>s. summarize_phase ldp rs f = Some s \<and>
    ps_min_ns s = Min (set (map f rs)) \<and> ps_max_ns s = Max (set (map f rs)) \<and>
    ps_min_ns s \<le> ps_p50_ns s \<and> ps_p50_ns s \<le> ps_p95_ns s \<and> ps_p95_ns s \<le> ps_p99_ns s \<and>
    ps_p99_ns s \<le> ps_max_ns s \<and>
    (if sum_list (map (\<lambda>r. uint (f r)) rs) < 2 ^ 64
     then f64_of_rat (u64_value (ps_min_ns s)) \<le> ps_avg_ns s \<and> ps_avg_ns s \<le> f64_of_rat (u64_value (ps_max_ns s))
     else True)"
  using summary_ordered [OF assms(1,2), of ldp f] summary_average [OF assms, of f] by force

theorem summary_in_order_witness:
  "\<exists>s. summarize_phase 64 [sample_timing 9, sample_timing 4] rt_parse_ns = Some s \<and>
    ps_min_ns s \<le> ps_p50_ns s \<and> ps_p99_ns s \<le> ps_max_ns s \<and>
    f64_of_rat (u64_value (ps_min_ns s)) \<le> ps_avg_ns s"
proof -
  have "sum_list (map (\<lambda>r. uint (rt_parse_ns r)) [sample_timing 9, sample_timing 4]) < 2 ^ 64"
    by (simp add: sample_timing_def)
  then show ?thesis
    using summary_in_order [of "[sample_timing 9, sample_timing 4]" 64 rt_parse_ns] by auto
qed

end
