(* ===== verification/Rtb_Handle.thy ===== *)
theory Rtb_Handle
  imports Rtb_Response Rtb_Benchmark
begin

text \<open>
  The synchronous request pipeline: \<open>include/rtb/handle_request.h\<close> and
  \<open>src/handle_request.cc\<close>. \<open>now_ns\<close> reads a clock: \<open>clock n\<close> is the value of the \<open>n\<close>-th
  reading, and the number of readings made so far is threaded through. \<open>None\<close> is undefined
  behaviour in the retrieval, excluded for a well-formed store.
\<close>

section \<open>The code\<close>

datatype HandleRequestStatus = HS_ResponseReady | HS_DropConnection

record HandleRequestResult =
  hr_status :: HandleRequestStatus
  hr_context :: RequestContext
  hr_decision :: BidDecision
  hr_response :: BidResponse

definition validate_request_context :: "RequestContext \<Rightarrow> RequestContext" where
  "validate_request_context rc =
    (if rc_country_key rc = 0 \<or> rc_device_type_key rc = DT_Unknown \<or> rc_ad_slot_key rc = 0 \<or>
        rc_auction_type rc = AT_Unspecified
     then rc\<lparr>rc_processing_status := RP_Invalid, rc_no_bid_reason := NB_InvalidRequest\<rparr>
     else if rc_processing_status rc \<noteq> RP_Ok then
       (if rc_no_bid_reason rc = NB_None then rc\<lparr>rc_no_bid_reason := NB_InvalidRequest\<rparr> else rc)
     else rc)"

text \<open>The clock and the readings made so far.\<close>

type_synonym clock = "nat \<Rightarrow> u64"

definition set_timing ::
  "HandleRequestTimingBreakdown option \<Rightarrow>
    (HandleRequestTimingBreakdown \<Rightarrow> HandleRequestTimingBreakdown) \<Rightarrow>
    HandleRequestTimingBreakdown option" where
  "set_timing timing f = map_option f timing"

definition handle_request ::
  "clock \<Rightarrow> nat \<Rightarrow> ParsedMessage \<Rightarrow> u64 \<Rightarrow> CampaignStoreSnapshot \<Rightarrow> WorkerRng \<Rightarrow>
    HandleRequestTimingBreakdown option \<Rightarrow>
    (HandleRequestResult \<times> WorkerRng \<times> HandleRequestTimingBreakdown option \<times> nat) option" where
  "handle_request clock t parsed_message received_at_ns campaign_store rng timing =
    (let context = validate_request_context (build_request_context parsed_message received_at_ns);
         timing = set_timing timing
           (ht_normalize_validate_ns_update (\<lambda>_. clock (t + 1) - clock t));
         status =
           (if rc_processing_status context \<noteq> RP_Ok \<and> rc_no_bid_reason context = NB_InvalidRequest
            then HS_DropConnection else HS_ResponseReady) in
     if \<not> is_eligible context then
       let decision = no_bid (rc_no_bid_reason context);
           response = build_bid_response context decision;
           timing = set_timing timing
             (ht_response_build_ns_update (\<lambda>_. clock (t + 3) - clock (t + 2)))
       in Some (\<lparr>hr_status = status, hr_context = context, hr_decision = decision,
                 hr_response = response\<rparr>, rng, timing, t + 4)
     else
       case retrieve_candidates campaign_store context of
         None \<Rightarrow> None
       | Some candidates \<Rightarrow>
           let timing = set_timing timing
                 (ht_retrieve_ns_update (\<lambda>_. clock (t + 3) - clock (t + 2)));
               (decision, rng) = make_bid_decision context candidates rng;
               timing = set_timing timing
                 (ht_decide_ns_update (\<lambda>_. clock (t + 5) - clock (t + 4)));
               response = build_bid_response context decision;
               timing = set_timing timing
                 (ht_response_build_ns_update (\<lambda>_. clock (t + 7) - clock (t + 6)))
           in Some (\<lparr>hr_status = status, hr_context = context, hr_decision = decision,
                     hr_response = response\<rparr>, rng, timing, t + 8))"

section \<open>Validation\<close>

definition context_valid :: "RequestContext \<Rightarrow> bool" where
  "context_valid rc \<longleftrightarrow>
    rc_country_key rc \<noteq> 0 \<and> rc_device_type_key rc \<noteq> DT_Unknown \<and> rc_ad_slot_key rc \<noteq> 0 \<and>
    rc_auction_type rc \<noteq> AT_Unspecified"

text \<open>Status and reason agree: a reason is set exactly when the request is not in order.\<close>

definition status_consistent :: "RequestContext \<Rightarrow> bool" where
  "status_consistent rc \<longleftrightarrow> (rc_processing_status rc = RP_Ok \<longleftrightarrow> rc_no_bid_reason rc = NB_None)"

definition context_of :: "ParsedMessage \<Rightarrow> u64 \<Rightarrow> RequestContext" where
  "context_of pm t = validate_request_context (build_request_context pm t)"

lemma validate_keys [simp]:
  "rc_request_id (validate_request_context rc) = rc_request_id rc"
  "rc_country_key (validate_request_context rc) = rc_country_key rc"
  "rc_device_type_key (validate_request_context rc) = rc_device_type_key rc"
  "rc_ad_slot_key (validate_request_context rc) = rc_ad_slot_key rc"
  "rc_auction_type (validate_request_context rc) = rc_auction_type rc"
  "rc_deadline_ns (validate_request_context rc) = rc_deadline_ns rc"
  by (simp_all add: validate_request_context_def)

lemma validate_invalid:
  "\<not> context_valid rc \<Longrightarrow> rc_processing_status (validate_request_context rc) = RP_Invalid \<and>
    rc_no_bid_reason (validate_request_context rc) = NB_InvalidRequest"
  by (auto simp: context_valid_def validate_request_context_def)

lemma validate_valid:
  "context_valid rc \<Longrightarrow> status_consistent rc \<Longrightarrow> validate_request_context rc = rc"
  by (auto simp: context_valid_def status_consistent_def validate_request_context_def)

lemma build_context_status:
  assumes "pm_processing_status pm = RP_Ok"
  shows "status_consistent (build_request_context pm t)"
    and "rc_processing_status (build_request_context pm t) \<in> {RP_Ok, RP_Expired}"
    and "rc_no_bid_reason (build_request_context pm t) \<in> {NB_None, NB_DeadlineExceeded}"
    and "rc_processing_status (build_request_context pm t) = RP_Expired \<longleftrightarrow>
      rc_deadline_ns (build_request_context pm t) \<le> t"
  using assms by (auto simp: build_request_context_def status_consistent_def Let_def)

text \<open>The three outcomes of validation for a parsed message.\<close>

lemma context_of_cases:
  assumes "pm_processing_status pm = RP_Ok"
  shows "rc_processing_status (context_of pm t) =
      (if \<not> context_valid (build_request_context pm t) then RP_Invalid
       else if compute_deadline_ns t (pm_tmax_ms pm) \<le> t then RP_Expired else RP_Ok)"
    and "rc_no_bid_reason (context_of pm t) =
      (if \<not> context_valid (build_request_context pm t) then NB_InvalidRequest
       else if compute_deadline_ns t (pm_tmax_ms pm) \<le> t then NB_DeadlineExceeded else NB_None)"
  using assms
  by (auto simp: context_of_def validate_request_context_def context_valid_def
      build_request_context_def Let_def)

section \<open>The pipeline without the clock\<close>

text \<open>An active campaign for the country, the device type and the ad slot of the request.\<close>

definition targets :: "RequestContext \<Rightarrow> CampaignRecord \<Rightarrow> bool" where
  "targets rc c \<longleftrightarrow>
    cr_active c \<and> cr_country_key c = rc_country_key rc \<and>
    cr_device_type_key c = rc_device_type_key rc \<and> cr_ad_slot_key c = rc_ad_slot_key rc"

lemma matches_request_targets: "matches_request rc c \<longleftrightarrow> targets rc c"
  by (simp add: matches_request_iff targets_def)

text \<open>
  The seam the retrieval note of the source describes: the rest of the pipeline only relies
  on candidates that are valid, match the request and carry creatives of their slot.
\<close>

definition candidate_ok :: "CampaignStoreSnapshot \<Rightarrow> RequestContext \<Rightarrow> CampaignView \<Rightarrow> bool" where
  "candidate_ok s rc v \<longleftrightarrow>
    (\<exists>c \<in> set (cs_campaigns s). vw_campaign v = Some c \<and> targets rc c \<and>
      vw_creatives v \<noteq> [] \<and> length (vw_creatives v) < max_vec \<and>
      vw_creatives v = creatives_of s c \<and>
      (\<forall>cv \<in> set (vw_creatives v). cv \<in> set (cs_creatives s) \<and> cv_ad_slot_key cv = rc_ad_slot_key rc))"

text \<open>
  A bid on the request: a campaign of the store that targets it, a creative of that campaign for
  the slot, and a price within the bounds.
\<close>

definition sound_bid :: "CampaignStoreSnapshot \<Rightarrow> RequestContext \<Rightarrow> BidDecision \<Rightarrow> bool" where
  "sound_bid s rc d \<longleftrightarrow>
    bd_no_bid_reason d = NB_None \<and> kMinBidPrice \<le> bd_bid_price d \<and> bd_bid_price d \<le> kMaxBidPrice \<and>
    (\<exists>c \<in> set (cs_campaigns s). targets rc c \<and> bd_campaign_id d = cr_campaign_id c \<and>
      (\<exists>cv \<in> set (creatives_of s c). cv \<in> set (cs_creatives s) \<and> cv_ad_slot_key cv = rc_ad_slot_key rc \<and>
        bd_creative_id d = cv_creative_id cv))"

locale candidate_source =
  fixes fetch :: "CampaignStoreSnapshot \<Rightarrow> RequestContext \<Rightarrow> CampaignView list option"
    and wf :: "CampaignStoreSnapshot \<Rightarrow> bool"
  assumes fetch_defined: "wf s \<Longrightarrow> \<exists>vs. fetch s rc = Some vs"
    and fetch_ok: "wf s \<Longrightarrow> fetch s rc = Some vs \<Longrightarrow> v \<in> set vs \<Longrightarrow> candidate_ok s rc v"
begin

lemma fetched_decision:
  fixes r :: WorkerRng
  assumes "wf s" "is_eligible rc" "fetch s rc = Some vs"
  defines "d \<equiv> fst (make_bid_decision rc vs r)"
  shows "bd_has_bid d \<longleftrightarrow> vs \<noteq> []"
    and "bd_has_bid d \<Longrightarrow> sound_bid s rc d"
    and "\<not> bd_has_bid d \<Longrightarrow> d = no_bid NB_NoEligibleCampaign"
proof -
  have ok: "candidate_ok s rc v" if "v \<in> set vs" for v
    using fetch_ok assms(1,3) that by blast
  have fit: "views_fit vs" using ok by (fastforce simp: views_fit_def candidate_ok_def)
  note dec = make_bid_decision_eligible [OF assms(2) fit, of r, folded d_def]
  have "(\<exists>v \<in> set vs. biddable v) \<longleftrightarrow> vs \<noteq> []"
  proof
    assume "vs \<noteq> []"
    then have "hd vs \<in> set vs" by simp
    then show "\<exists>v \<in> set vs. biddable v"
      using ok [of "hd vs"] by (auto simp: candidate_ok_def biddable_def valid_def)
  qed auto
  with dec(1) show "bd_has_bid d \<longleftrightarrow> vs \<noteq> []" by simp
  show "\<not> bd_has_bid d \<Longrightarrow> d = no_bid NB_NoEligibleCampaign" by (rule dec(3))
  assume "bd_has_bid d"
  then have "sound_offer vs d" by (rule dec(2))
  then obtain v c cv where v: "v \<in> set vs" "vw_campaign v = Some c" "cv \<in> set (vw_creatives v)"
    and d: "d = offer_of c cv (bd_bid_price d)" "kMinBidPrice \<le> bd_bid_price d" "bd_bid_price d \<le> kMaxBidPrice"
    unfolding sound_offer_def by blast
  have "c \<in> set (cs_campaigns s)" "targets rc c" "cv \<in> set (creatives_of s c)" "cv \<in> set (cs_creatives s)"
    "cv_ad_slot_key cv = rc_ad_slot_key rc"
    using ok [OF v(1)] v(2,3) by (auto simp: candidate_ok_def)
  moreover have "bd_no_bid_reason d = NB_None" "bd_campaign_id d = cr_campaign_id c"
    "bd_creative_id d = cv_creative_id cv"
    using d(1) by (metis offer_of_def BidDecision.select_convs(2,3,4))+
  ultimately show "sound_bid s rc d" using d(2,3) unfolding sound_bid_def by blast
qed

end

lemma creatives_of_fit: "store_wf s \<Longrightarrow> length (creatives_of s c) < max_vec"
proof -
  assume "store_wf s"
  then have "length (cs_creatives s) < max_vec"
    by (simp add: store_wf_def store_fits_def max_vec_def)
  moreover have "length (creatives_of s c) \<le> length (cs_creatives s)"
    by (simp add: creatives_of_def)
  ultimately show ?thesis by simp
qed

interpretation retrieval: candidate_source retrieve_candidates store_wf
proof unfold_locales
  fix s rc assume wf: "store_wf s"
  then show "\<exists>vs. retrieve_candidates s rc = Some vs" by (simp add: retrieve_scan)
  fix vs v assume "retrieve_candidates s rc = Some vs" "v \<in> set vs"
  then have "v \<in> set (scan_candidates s rc)" using wf by (simp add: retrieve_scan)
  from scan_candidate_props [OF wf this] show "candidate_ok s rc v"
    using creatives_of_fit [OF wf] by (auto simp: candidate_ok_def matches_request_targets)
qed

section \<open>The pipeline\<close>

text \<open>What the pipeline computes, without timing: context, decision and generator.\<close>

definition pipeline_decision ::
  "CampaignStoreSnapshot \<Rightarrow> RequestContext \<Rightarrow> WorkerRng \<Rightarrow> BidDecision \<times> WorkerRng" where
  "pipeline_decision s rc r =
    (if is_eligible rc then make_bid_decision rc (scan_candidates s rc) r
     else (no_bid (rc_no_bid_reason rc), r))"

definition handle_status :: "RequestContext \<Rightarrow> HandleRequestStatus" where
  "handle_status rc =
    (if rc_processing_status rc \<noteq> RP_Ok \<and> rc_no_bid_reason rc = NB_InvalidRequest
     then HS_DropConnection else HS_ResponseReady)"

lemma handle_request_pipeline:
  assumes "store_wf s"
  shows "\<exists>timing' t'. handle_request clock t pm now s r timing = Some
    (\<lparr>hr_status = handle_status (context_of pm now), hr_context = context_of pm now,
      hr_decision = fst (pipeline_decision s (context_of pm now) r),
      hr_response = build_bid_response (context_of pm now)
        (fst (pipeline_decision s (context_of pm now) r))\<rparr>,
     snd (pipeline_decision s (context_of pm now) r), timing', t') \<and> t \<le> t'"
proof (cases "is_eligible (context_of pm now)")
  case True
  then show ?thesis
    using retrieve_scan [OF assms]
    by (simp add: handle_request_def context_of_def [symmetric] pipeline_decision_def
        handle_status_def Let_def del: is_eligible_iff split: prod.splits)
next
  case False
  then show ?thesis
    by (simp add: handle_request_def context_of_def [symmetric] pipeline_decision_def
        handle_status_def Let_def del: is_eligible_iff)
qed

lemma handle_status_drop:
  assumes "pm_processing_status pm = RP_Ok"
  shows "handle_status (context_of pm now) = HS_DropConnection \<longleftrightarrow>
    \<not> context_valid (build_request_context pm now)"
  by (simp add: handle_status_def context_of_cases [OF assms])

lemma pipeline_decision_spec:
  assumes wf: "store_wf s" and el: "is_eligible rc"
  shows "bd_has_bid (fst (pipeline_decision s rc r)) \<longleftrightarrow>
      (\<exists>c \<in> set (cs_campaigns s). targets rc c)"
    and "bd_has_bid (fst (pipeline_decision s rc r)) \<Longrightarrow>
      sound_bid s rc (fst (pipeline_decision s rc r))"
    and "\<not> bd_has_bid (fst (pipeline_decision s rc r)) \<Longrightarrow>
      fst (pipeline_decision s rc r) = no_bid NB_NoEligibleCampaign"
proof -
  have pd: "pipeline_decision s rc r = make_bid_decision rc (scan_candidates s rc) r"
    using el by (simp add: pipeline_decision_def)
  have "scan_candidates s rc \<noteq> [] \<longleftrightarrow> (\<exists>c \<in> set (cs_campaigns s). targets rc c)"
    using el by (auto simp: scan_candidates_def filter_empty_conv matches_request_targets)
  then show "bd_has_bid (fst (pipeline_decision s rc r)) \<longleftrightarrow>
      (\<exists>c \<in> set (cs_campaigns s). targets rc c)"
    and "bd_has_bid (fst (pipeline_decision s rc r)) \<Longrightarrow>
      sound_bid s rc (fst (pipeline_decision s rc r))"
    and "\<not> bd_has_bid (fst (pipeline_decision s rc r)) \<Longrightarrow>
      fst (pipeline_decision s rc r) = no_bid NB_NoEligibleCampaign"
    unfolding pd using retrieval.fetched_decision [OF wf el retrieve_scan [OF wf], of r] by auto
qed

lemma pipeline_decision_wf: "rng_wf r \<Longrightarrow> rng_wf (snd (pipeline_decision s rc r))"
  by (simp add: pipeline_decision_def make_bid_decision_wf del: is_eligible_iff)

section \<open>Properties\<close>

text \<open>
  C4. The pipeline bids soundly: an eligible request is answered, with a bid exactly when the
  store has an active campaign with the keys of its country, device type and ad slot; the bid
  then names such a campaign, a creative of that campaign for the slot and a price within the
  bounds, and the response is the one built from that decision.
\<close>

theorem pipeline_bids_soundly:
  assumes "store_wf s" and "is_eligible (context_of pm now)"
  shows "\<exists>res r' timing' t'. handle_request clock t pm now s r timing = Some (res, r', timing', t') \<and>
    hr_status res = HS_ResponseReady \<and> hr_context res = context_of pm now \<and>
    hr_response res = build_bid_response (context_of pm now) (hr_decision res) \<and>
    (if \<exists>c \<in> set (cs_campaigns s). cr_active c \<and>
        cr_country_key c = normalize_country_key (pm_country pm) \<and>
        cr_device_type_key c = normalize_device_type_key (pm_device_type pm) \<and>
        cr_ad_slot_key c = normalize_ad_slot_key (pm_ad_slot pm)
     then bd_has_bid (hr_decision res) \<and> sound_bid s (context_of pm now) (hr_decision res)
     else hr_decision res = no_bid NB_NoEligibleCampaign)"
proof -
  note p = pipeline_decision_spec [OF assms, of r]
  have target: "targets (context_of pm now) c \<longleftrightarrow> cr_active c \<and>
      cr_country_key c = normalize_country_key (pm_country pm) \<and>
      cr_device_type_key c = normalize_device_type_key (pm_device_type pm) \<and>
      cr_ad_slot_key c = normalize_ad_slot_key (pm_ad_slot pm)" for c
    by (simp add: targets_def context_of_def)
  have "handle_status (context_of pm now) = HS_ResponseReady"
    using assms(2) by (simp add: handle_status_def)
  moreover obtain timing' t' where h: "handle_request clock t pm now s r timing = Some
    (\<lparr>hr_status = handle_status (context_of pm now), hr_context = context_of pm now,
      hr_decision = fst (pipeline_decision s (context_of pm now) r),
      hr_response = build_bid_response (context_of pm now)
        (fst (pipeline_decision s (context_of pm now) r))\<rparr>,
     snd (pipeline_decision s (context_of pm now) r), timing', t')"
    using handle_request_pipeline [OF assms(1), of clock t pm now r timing] by blast
  ultimately show ?thesis
  proof (intro exI conjI)
    show "handle_request clock t pm now s r timing = Some
      (\<lparr>hr_status = handle_status (context_of pm now), hr_context = context_of pm now,
        hr_decision = fst (pipeline_decision s (context_of pm now) r),
        hr_response = build_bid_response (context_of pm now)
          (fst (pipeline_decision s (context_of pm now) r))\<rparr>,
       snd (pipeline_decision s (context_of pm now) r), timing', t')" by (rule h)
  qed (use p in \<open>auto simp: target\<close>)
qed

definition sample_message :: ParsedMessage where
  "sample_message = message_of sample_request"

lemma sample_message_eligible: "is_eligible (context_of sample_message 5)"
proof -
  have "compute_deadline_ns 5 100 = 99000005"
    by (simp add: compute_deadline_ns_def kNsPerMs_def kResponseSafetyMarginNs_def Let_def)
  moreover have "context_valid (build_request_context sample_message 5)"
    using parse_sample_values
    by (simp add: context_valid_def sample_message_def message_of_def sample_request_def
        AUCTION_TYPE_FIRST_PRICE_def)
  moreover have "pm_processing_status sample_message = RP_Ok" "pm_tmax_ms sample_message = 100"
    by (simp_all add: sample_message_def message_of_def sample_request_def)
  ultimately show ?thesis using context_of_cases [of sample_message 5] by simp
qed

theorem pipeline_bids_soundly_witness:
  "\<exists>s res r' timing' t'. load_campaign_store_snapshot (\<lambda>_. Some sample_csv) ''f'' = Some s \<and>
    handle_request (\<lambda>_. 0) 0 sample_message 5 s default_rng None = Some (res, r', timing', t') \<and>
    bd_has_bid (hr_decision res)"
proof -
  obtain s c where s: "load_campaign_store_snapshot (\<lambda>_. Some sample_csv) ''f'' = Some s"
    and c: "cs_campaigns s = [c]" "length (cs_creatives s) = 2" "cr_active c" "cr_country_key c = normalize_country_key ''US''"
      "cr_device_type_key c = normalize_device_type_key ''ctv''" "cr_ad_slot_key c = normalize_ad_slot_key ''home''"
    using sample_load by blast
  have wf: "store_wf s" using load_store_wf [OF s] c by (simp add: store_fits_def)
  have "\<exists>c \<in> set (cs_campaigns s). cr_active c \<and>
      cr_country_key c = normalize_country_key (pm_country sample_message) \<and>
      cr_device_type_key c = normalize_device_type_key (pm_device_type sample_message) \<and>
      cr_ad_slot_key c = normalize_ad_slot_key (pm_ad_slot sample_message)"
    using c by (simp add: sample_message_def message_of_def sample_request_def)
  with pipeline_bids_soundly [OF wf sample_message_eligible, of "\<lambda>_. 0" 0 default_rng None] s
  show ?thesis by auto
qed

text \<open>
  C5. The error path: a parsed request always gets a result; the connection is dropped exactly
  when a key is zero or unknown, and a request that is not eligible leaves the generator alone
  and is answered with the reason of its context.
\<close>

theorem ineligible_requests_answered:
  assumes "store_wf s" and "pm_processing_status pm = RP_Ok"
  shows "\<exists>res r' timing' t'. handle_request clock t pm now s r timing = Some (res, r', timing', t') \<and>
    (hr_status res = HS_DropConnection \<longleftrightarrow> \<not> context_valid (build_request_context pm now)) \<and>
    (if is_eligible (context_of pm now) then True
     else r' = r \<and> hr_decision res = no_bid (rc_no_bid_reason (context_of pm now)) \<and>
       rc_no_bid_reason (context_of pm now) \<noteq> NB_None)"
proof -
  have reason: "rc_no_bid_reason (context_of pm now) \<noteq> NB_None" if "\<not> is_eligible (context_of pm now)"
    using that context_of_cases [OF assms(2), of now] by (auto split: if_splits)
  obtain timing' t' where h: "handle_request clock t pm now s r timing = Some
    (\<lparr>hr_status = handle_status (context_of pm now), hr_context = context_of pm now,
      hr_decision = fst (pipeline_decision s (context_of pm now) r),
      hr_response = build_bid_response (context_of pm now)
        (fst (pipeline_decision s (context_of pm now) r))\<rparr>,
     snd (pipeline_decision s (context_of pm now) r), timing', t')"
    using handle_request_pipeline [OF assms(1), of clock t pm now r timing] by blast
  show ?thesis
  proof (intro exI conjI)
    show "handle_request clock t pm now s r timing = Some
      (\<lparr>hr_status = handle_status (context_of pm now), hr_context = context_of pm now,
        hr_decision = fst (pipeline_decision s (context_of pm now) r),
        hr_response = build_bid_response (context_of pm now)
          (fst (pipeline_decision s (context_of pm now) r))\<rparr>,
       snd (pipeline_decision s (context_of pm now) r), timing', t')" by (rule h)
  qed (use reason in \<open>auto simp: handle_status_drop [OF assms(2)] pipeline_decision_def
      simp del: is_eligible_iff\<close>)
qed

theorem ineligible_requests_answered_witness:
  "\<exists>res r' timing' t'. handle_request (\<lambda>_. 0) 0 (sample_message\<lparr>pm_country := ''USA''\<rparr>) 5 empty_store
      default_rng None = Some (res, r', timing', t') \<and> hr_status res = HS_DropConnection"
proof -
  let ?pm = "sample_message\<lparr>pm_country := ''USA''\<rparr>"
  have ok: "pm_processing_status ?pm = RP_Ok" by (simp add: sample_message_def message_of_def)
  have "\<not> context_valid (build_request_context ?pm 5)"
    by (simp add: context_valid_def normalize_country_key_def)
  with ineligible_requests_answered [OF empty_store_wf ok, of "\<lambda>_. 0" 0 5 default_rng None]
  show ?thesis by auto
qed

end
