(* ===== verification/Rtb_Worker.thy ===== *)
theory Rtb_Worker
  imports Rtb_Handle
begin

text \<open>
  The worker: \<open>include/rtb/worker_runtime.h\<close>, \<open>src/worker_runtime.cc\<close> and \<open>ConnectionState\<close>
  of \<open>include/rtb/runtime_types.h\<close>. The code runs against the kernel; what it learns from
  system calls is input of the model, what it does to the kernel is recorded.

  \<^item> \<open>world\<close> holds what never changes: the protobuf library, the clock and the results of
    \<open>epoll_ctl\<close> in call order.
  \<^item> \<open>os\<close> is the kernel side: the client descriptors registered with the epoll instance
    (\<open>True\<close>: with \<open>EPOLLOUT\<close>),
    the results \<open>read\<close>, \<open>write\<close> and \<open>accept4\<close> will return, in call order, and per connection
    (by \<open>connection_id\<close>, which is never reused) the bytes received and sent. \<open>os_log\<close> lists
    the answered requests and \<open>os_arrivals\<close>, for each of them, how often the clock had been read
    when its frame was taken up; both are read by the specification only.

  A handler returns \<open>None\<close> when the given results are not those of a run: a list of results
  ends while the code still asks for one, a \<open>read\<close> or \<open>write\<close> returns more than was asked
  for, \<open>accept4\<close> returns a descriptor that is already open, or undefined behaviour is reached;
  and when the process does not survive the handler: \<open>write\<close> on a connection the client has closed
  raises \<open>SIGPIPE\<close>, which nothing under \<open>src\<close> ignores or handles (\<open>Wr_SIGPIPE\<close>).
\<close>

section \<open>State\<close>

record ConnectionState =
  cn_fd :: int
  cn_connection_id :: u64
  cn_request_sequence :: u64
  cn_read_buffer :: ReusableBuffer
  cn_write_buffer :: ReusableBuffer
  cn_has_pending_write :: bool

definition empty_connection :: ConnectionState where
  "empty_connection =
    \<lparr>cn_fd = -1, cn_connection_id = 0, cn_request_sequence = 0, cn_read_buffer = empty_buffer,
     cn_write_buffer = empty_buffer, cn_has_pending_write = False\<rparr>"

record WorkerConfig =
  wc_worker_id :: int
  wc_port :: u16
  wc_epoll_max_events :: int
  wc_connection_buffer_capacity :: u64
  wc_max_frame_size :: u32
  wc_shutdown_fd :: int
  wc_campaign_data_path :: string

text \<open>The member initialisers; the build bakes the project directory into the data path.\<close>

definition default_WorkerConfig :: "string \<Rightarrow> WorkerConfig" where
  "default_WorkerConfig project_dir =
    \<lparr>wc_worker_id = 0, wc_port = 0, wc_epoll_max_events = 256,
     wc_connection_buffer_capacity = 16 * 1024, wc_max_frame_size = 64 * 1024,
     wc_shutdown_fd = -1, wc_campaign_data_path = project_dir @ ''/data/sample_campaigns.csv''\<rparr>"

record WorkerRuntime =
  wr_config :: WorkerConfig
  wr_epoll_fd :: int
  wr_listen_fd :: int
  wr_next_connection_id :: u64
  wr_parse_scratch :: ParseScratch
  wr_rng :: WorkerRng
  wr_benchmark_recorder :: "BenchmarkRecorder option"
  wr_campaign_store :: "CampaignStoreSnapshot option"
  wr_connections :: "int \<rightharpoonup> ConnectionState"

datatype sys_read = Rd_Bytes "u8 list" | Rd_EOF | Rd_EINTR | Rd_EAGAIN | Rd_Error
datatype sys_write = Wr_Bytes nat | Wr_Zero | Wr_EINTR | Wr_EAGAIN | Wr_Error | Wr_SIGPIPE
datatype sys_accept = Ac_Fd nat | Ac_EAGAIN | Ac_Error

record world =
  w_lib :: proto_lib
  w_clock :: clock
  w_ctl_ok :: "nat \<Rightarrow> bool"

record os =
  os_ticks :: nat
  os_ctls :: nat
  os_interest :: "int \<rightharpoonup> bool"
  os_reads :: "sys_read list"
  os_writes :: "sys_write list"
  os_accepts :: "sys_accept list"
  os_wakes :: nat
  os_recv :: "u64 \<Rightarrow> u8 list"
  os_sent :: "u64 \<Rightarrow> u8 list"
  os_log :: "(u64 \<times> u8 list \<times> BidResponse) list"
  os_arrivals :: "nat list"

section \<open>Start and shutdown\<close>

text \<open>
  The results of the calls that set a worker up: the clock, the descriptor of \<open>socket\<close>, whether
  the two \<open>setsockopt\<close>, \<open>bind\<close> and \<open>listen\<close> succeed, the descriptor of \<open>epoll_create1\<close>, and whether
  the listening socket and the shutdown descriptor can be registered.
\<close>

record startup =
  su_now :: u64
  su_socket :: int
  su_reuse_addr :: bool
  su_reuse_port :: bool
  su_bind :: bool
  su_listen :: bool
  su_epoll :: int
  su_add_listen :: bool
  su_add_shutdown :: bool

text \<open>
  The result names the descriptors that are closed. The loop over \<open>connections\<close> runs in no
  particular order; it marks each entry and the map is cleared after it.
\<close>

definition shutdown_worker_runtime :: "WorkerRuntime \<Rightarrow> WorkerRuntime \<times> int set" where
  "shutdown_worker_runtime rt =
    (rt\<lparr>wr_connections := Map.empty,
        wr_listen_fd := (if wr_listen_fd rt \<ge> 0 then -1 else wr_listen_fd rt),
        wr_epoll_fd := (if wr_epoll_fd rt \<ge> 0 then -1 else wr_epoll_fd rt)\<rparr>,
     {fd \<in> cn_fd ` ran (wr_connections rt) \<union> {wr_listen_fd rt} \<union> {wr_epoll_fd rt}. fd \<ge> 0})"

definition initialize_worker_runtime ::
  "(string \<Rightarrow> string option) \<Rightarrow> startup \<Rightarrow> WorkerRuntime \<Rightarrow> bool \<times> WorkerRuntime \<times> int set" where
  "initialize_worker_runtime files su rt =
    (let rt = rt\<lparr>wr_rng := seed (wr_rng rt)
           (word_of_int (wc_worker_id (wr_config rt) + 1) XOR su_now su XOR kDefaultRngSeed)\<rparr>;
         store =
           (case wr_campaign_store rt of
              None \<Rightarrow> load_campaign_store_snapshot files (wc_campaign_data_path (wr_config rt))
            | Some st \<Rightarrow> Some st);
         rt = rt\<lparr>wr_campaign_store := store\<rparr> in
     if store = None then (False, rt, {})
     else
       let rt = rt\<lparr>wr_listen_fd := su_socket su\<rparr> in
       if wr_listen_fd rt = -1 then (False, rt, {})
       else if \<not> su_reuse_addr su then (False, shutdown_worker_runtime rt)
       else if \<not> su_reuse_port su then (False, shutdown_worker_runtime rt)
       else
         let rt = rt\<lparr>wr_next_connection_id := 1, wr_connections := Map.empty\<rparr> in
         if \<not> su_bind su then (False, shutdown_worker_runtime rt)
         else if \<not> su_listen su then (False, shutdown_worker_runtime rt)
         else
           let rt = rt\<lparr>wr_epoll_fd := su_epoll su\<rparr> in
           if wr_epoll_fd rt = -1 then (False, shutdown_worker_runtime rt)
           else if \<not> su_add_listen su then (False, shutdown_worker_runtime rt)
           else if wc_shutdown_fd (wr_config rt) \<ge> 0 \<and> \<not> su_add_shutdown su
           then (False, shutdown_worker_runtime rt)
           else (True, rt, {}))"

definition empty_runtime :: "WorkerConfig \<Rightarrow> WorkerRuntime" where
  "empty_runtime config =
    \<lparr>wr_config = config, wr_epoll_fd = -1, wr_listen_fd = -1, wr_next_connection_id = 1,
     wr_parse_scratch = \<lparr>request = empty_BidRequest\<rparr>, wr_rng = default_rng,
     wr_benchmark_recorder = None, wr_campaign_store = None, wr_connections = Map.empty\<rparr>"

section \<open>Helpers\<close>

definition close_connection :: "WorkerRuntime \<Rightarrow> os \<Rightarrow> int \<Rightarrow> WorkerRuntime \<times> os" where
  "close_connection rt s client_fd =
    (if client_fd < 0 then (rt, s)
     else (rt\<lparr>wr_connections := (wr_connections rt)(client_fd := None)\<rparr>,
           s\<lparr>os_ctls := os_ctls s + 1, os_interest := (os_interest s)(client_fd := None)\<rparr>))"

definition signal_shutdown_fd :: "os \<Rightarrow> int \<Rightarrow> os" where
  "signal_shutdown_fd s shutdown_fd =
    (if shutdown_fd < 0 then s else s\<lparr>os_wakes := os_wakes s + 1\<rparr>)"

definition update_client_events :: "world \<Rightarrow> os \<Rightarrow> int \<Rightarrow> bool \<Rightarrow> bool \<times> os" where
  "update_client_events w s client_fd enable_write =
    (let ok = w_ctl_ok w (os_ctls s) in
     (ok, s\<lparr>os_ctls := os_ctls s + 1,
            os_interest := (if ok then (os_interest s)(client_fd \<mapsto> enable_write) else os_interest s)\<rparr>))"

section \<open>Flushing the send buffer\<close>

text \<open>
  The loop of \<open>flush_pending_write\<close>: whether it ended without a fatal result, the buffer,
  the bytes handed to the kernel, the remaining results. \<open>Wr_Error\<close> is a result of minus one with
  an \<open>errno\<close> other than the two tested.
\<close>

fun flush_loop ::
  "ReusableBuffer \<Rightarrow> sys_write list \<Rightarrow> u8 list \<Rightarrow>
    (bool \<times> ReusableBuffer \<times> u8 list \<times> sys_write list) option" where
  "flush_loop b [] sent =
    (if readable_bytes b > 0 then None else Some (True, b, sent, []))"
| "flush_loop b (res # rest) sent =
    (if \<not> readable_bytes b > 0 then Some (True, b, sent, res # rest)
     else
       case res of
         Wr_Bytes n \<Rightarrow>
           if n = 0 \<or> unat (readable_bytes b) < n then None
           else flush_loop (consume_frame b (word_of_nat n)) rest
             (sent @ take n (read_span b (read_offset b, readable_bytes b)))
       | Wr_Zero \<Rightarrow> Some (False, b, sent, rest)
       | Wr_EINTR \<Rightarrow> flush_loop b rest sent
       | Wr_EAGAIN \<Rightarrow> Some (True, b, sent, rest)
       | Wr_Error \<Rightarrow> Some (False, b, sent, rest)
       | Wr_SIGPIPE \<Rightarrow> None)"

definition flush_pending_write ::
  "world \<Rightarrow> WorkerRuntime \<Rightarrow> os \<Rightarrow> ConnectionState \<Rightarrow> (bool \<times> os \<times> ConnectionState) option" where
  "flush_pending_write w rt s cn =
    (case flush_loop (cn_write_buffer cn) (os_writes s) [] of
       None \<Rightarrow> None
     | Some (ok, b, sent, rest) \<Rightarrow>
         let cn = cn\<lparr>cn_write_buffer := b\<rparr>;
             s = s\<lparr>os_writes := rest,
               os_sent := (os_sent s)(cn_connection_id cn := os_sent s (cn_connection_id cn) @ sent)\<rparr> in
         if \<not> ok then Some (False, s, cn)
         else
           let cn = cn\<lparr>cn_has_pending_write := (readable_bytes b \<noteq> 0)\<rparr>;
               (updated, s) = update_client_events w s (cn_fd cn) (cn_has_pending_write cn) in
           if \<not> updated then Some (False, s, cn)
           else if \<not> cn_has_pending_write cn \<and>
               (case wr_benchmark_recorder rt of None \<Rightarrow> False | Some r \<Rightarrow> request_limit_reached r)
           then Some (True, signal_shutdown_fd s (wc_shutdown_fd (wr_config rt)), cn)
           else Some (True, s, cn))"

section \<open>Processing a received frame\<close>

datatype ProcessFramesOutcome = PF_Continue | PF_PauseForWrite | PF_CloseConnection

text \<open>
  The body of \<open>process_ready_frames\<close>; every path through the source's \<open>for (;;)\<close> returns in
  its first round.
\<close>

definition process_ready_frames ::
  "world \<Rightarrow> WorkerRuntime \<Rightarrow> os \<Rightarrow> ConnectionState \<Rightarrow>
    (ProcessFramesOutcome \<times> WorkerRuntime \<times> os \<times> ConnectionState) option" where
  "process_ready_frames w rt s cn =
    (let (status, frame) =
       try_extract_frame (cn_read_buffer cn) (wc_max_frame_size (wr_config rt)) in
     case status of
       FS_NeedMoreData \<Rightarrow> Some (PF_Continue, rt, s, cn)
     | FS_InvalidLength \<Rightarrow> Some (PF_CloseConnection, rt, s, cn)
     | FS_FrameReady \<Rightarrow>
       let t = os_ticks s;
           payload = read_span (cn_read_buffer cn) (fv_payload frame);
           (parse_status, scratch, parsed_message) =
             parse_bid_request (w_lib w) payload (wr_parse_scratch rt);
           rt = rt\<lparr>wr_parse_scratch := scratch\<rparr> in
       if parse_status \<noteq> PS_Ok
       then Some (PF_CloseConnection, rt, s\<lparr>os_ticks := t + 3\<rparr>, cn)
       else
         case wr_campaign_store rt of
           None \<Rightarrow> None
         | Some store \<Rightarrow>
         (case handle_request (w_clock w) (t + 4) parsed_message (w_clock w (t + 3)) store
                 (wr_rng rt) (Some empty_handle_timing) of
            None \<Rightarrow> None
          | Some (request_result, rng, handle_timing, t') \<Rightarrow>
            let rt = rt\<lparr>wr_rng := rng\<rparr>; ht = the handle_timing in
            if hr_status request_result = HS_DropConnection
            then Some (PF_CloseConnection, rt, s\<lparr>os_ticks := t'\<rparr>, cn)
            else
              let (staged, wb) =
                    stage_response_frame (w_lib w) (hr_response request_result) (cn_write_buffer cn);
                  cn = cn\<lparr>cn_write_buffer := wb\<rparr> in
              if \<not> staged then Some (PF_CloseConnection, rt, s\<lparr>os_ticks := t' + 1\<rparr>, cn)
              else
                let timing =
                      \<lparr>rt_parse_ns = w_clock w (t + 2) - w_clock w (t + 1),
                       rt_normalize_validate_ns = ht_normalize_validate_ns ht,
                       rt_retrieve_ns = ht_retrieve_ns ht,
                       rt_decide_ns = ht_decide_ns ht,
                       rt_response_build_ns = ht_response_build_ns ht,
                       rt_response_stage_ns = w_clock w (t' + 1) - w_clock w t',
                       rt_total_internal_ns = w_clock w (t' + 1) - w_clock w t\<rparr>;
                    rt = rt\<lparr>wr_benchmark_recorder :=
                      map_option (\<lambda>r. record_request r timing) (wr_benchmark_recorder rt)\<rparr>;
                    cn = cn\<lparr>cn_read_buffer :=
                        consume_frame (cn_read_buffer cn) (ucast (fv_total_frame_bytes frame)),
                      cn_has_pending_write := True\<rparr>;
                    s = s\<lparr>os_ticks := t' + 2,
                      os_log := os_log s @ [(cn_connection_id cn, payload, hr_response request_result)],
                      os_arrivals := os_arrivals s @ [t]\<rparr>;
                    (updated, s) = update_client_events w s (cn_fd cn) True in
                if \<not> updated then Some (PF_CloseConnection, rt, s, cn)
                else Some (PF_PauseForWrite, rt, s, cn)))"

section \<open>Reading\<close>

text \<open>
  The read loop: \<open>(should_close, \<dots>)\<close>. The bytes of a successful \<open>read\<close> are written into the
  writable region and committed.
\<close>

definition make_room :: "ReusableBuffer \<Rightarrow> ReusableBuffer" where
  "make_room b = (if snd (writable_region b) = 0 then compact b else b)"

definition receive :: "ReusableBuffer \<Rightarrow> u8 list \<Rightarrow> ReusableBuffer" where
  "receive b bs =
    commit_write (write_span b (fst (writable_region b)) bs) (word_of_nat (length bs))"

fun read_loop ::
  "world \<Rightarrow> WorkerRuntime \<Rightarrow> os \<Rightarrow> ConnectionState \<Rightarrow> sys_read list \<Rightarrow>
    (bool \<times> WorkerRuntime \<times> os \<times> ConnectionState) option" where
  "read_loop w rt s cn reads =
    (let cn = cn\<lparr>cn_read_buffer := make_room (cn_read_buffer cn)\<rparr>;
         room = snd (writable_region (cn_read_buffer cn)) in
     if room = 0 then Some (True, rt, s\<lparr>os_reads := reads\<rparr>, cn)
     else
       case reads of
         [] \<Rightarrow> None
       | res # rest \<Rightarrow>
         (case res of
            Rd_Bytes bs \<Rightarrow>
              if bs = [] \<or> unat room < length bs then None
              else
                let cn = cn\<lparr>cn_read_buffer := receive (cn_read_buffer cn) bs\<rparr>;
                    i = cn_connection_id cn;
                    s = s\<lparr>os_recv := (os_recv s)(i := os_recv s i @ bs)\<rparr> in
                (case process_ready_frames w rt s cn of
                   None \<Rightarrow> None
                 | Some (PF_CloseConnection, rt, s, cn) \<Rightarrow> Some (True, rt, s\<lparr>os_reads := rest\<rparr>, cn)
                 | Some (PF_PauseForWrite, rt, s, cn) \<Rightarrow> Some (False, rt, s\<lparr>os_reads := rest\<rparr>, cn)
                 | Some (PF_Continue, rt, s, cn) \<Rightarrow> read_loop w rt s cn rest)
          | Rd_EOF \<Rightarrow> Some (True, rt, s\<lparr>os_reads := rest\<rparr>, cn)
          | Rd_EINTR \<Rightarrow> read_loop w rt s cn rest
          | Rd_EAGAIN \<Rightarrow> Some (False, rt, s\<lparr>os_reads := rest\<rparr>, cn)
          | Rd_Error \<Rightarrow> Some (True, rt, s\<lparr>os_reads := rest\<rparr>, cn)))"

declare read_loop.simps [simp del]

section \<open>Events\<close>

record epoll_event =
  ev_fd :: int
  ev_out :: bool
  ev_err :: bool
  ev_hup :: bool
  ev_rdhup :: bool

text \<open>The reference \<open>connection\<close> is an entry of the map: it is written back or erased.\<close>

definition put_connection :: "WorkerRuntime \<Rightarrow> ConnectionState \<Rightarrow> int \<Rightarrow> WorkerRuntime" where
  "put_connection rt cn fd = rt\<lparr>wr_connections := (wr_connections rt)(fd \<mapsto> cn)\<rparr>"

definition handle_client_event ::
  "world \<Rightarrow> WorkerRuntime \<Rightarrow> os \<Rightarrow> epoll_event \<Rightarrow> (WorkerRuntime \<times> os) option" where
  "handle_client_event w rt s ev =
    (let client_fd = ev_fd ev in
     case wr_connections rt client_fd of
       None \<Rightarrow> Some (rt, s)
     | Some cn \<Rightarrow>
       if ev_err ev \<or> ev_hup ev \<or> ev_rdhup ev then Some (close_connection rt s client_fd)
       else
         let after_write =
           (if cn_has_pending_write cn \<and> ev_out ev then flush_pending_write w rt s cn
            else Some (True, s, cn)) in
         case after_write of
           None \<Rightarrow> None
         | Some (flushed, s, cn) \<Rightarrow>
           if \<not> flushed then Some (close_connection (put_connection rt cn client_fd) s client_fd)
           else if cn_has_pending_write cn then Some (put_connection rt cn client_fd, s)
           else
             case process_ready_frames w rt s cn of
               None \<Rightarrow> None
             | Some (PF_CloseConnection, rt, s, cn) \<Rightarrow>
                 Some (close_connection (put_connection rt cn client_fd) s client_fd)
             | Some (PF_PauseForWrite, rt, s, cn) \<Rightarrow> Some (put_connection rt cn client_fd, s)
             | Some (PF_Continue, rt, s, cn) \<Rightarrow>
                 (case read_loop w rt s cn (os_reads s) of
                    None \<Rightarrow> None
                  | Some (should_close, rt, s, cn) \<Rightarrow>
                      let rt = put_connection rt cn client_fd in
                      if should_close then Some (close_connection rt s client_fd)
                      else Some (rt, s)))"

text \<open>The accept loop of the listening socket; \<open>emplace\<close> keeps an entry that exists.\<close>

fun accept_loop ::
  "world \<Rightarrow> WorkerRuntime \<Rightarrow> os \<Rightarrow> sys_accept list \<Rightarrow> (WorkerRuntime \<times> os) option" where
  "accept_loop w rt s [] = None"
| "accept_loop w rt s (Ac_EAGAIN # rest) = Some (rt, s\<lparr>os_accepts := rest\<rparr>)"
| "accept_loop w rt s (Ac_Error # rest) = Some (rt, s\<lparr>os_accepts := rest\<rparr>)"
| "accept_loop w rt s (Ac_Fd descriptor # rest) =
    (let client_fd = int descriptor;
         capacity = wc_connection_buffer_capacity (wr_config rt);
         cn = empty_connection
           \<lparr>cn_fd := client_fd, cn_connection_id := wr_next_connection_id rt,
            cn_read_buffer := reserve empty_buffer capacity,
            cn_write_buffer := reserve empty_buffer capacity\<rparr>;
         rt = rt\<lparr>wr_next_connection_id := wr_next_connection_id rt + 1,
           wr_connections :=
             (case wr_connections rt client_fd of
                None \<Rightarrow> (wr_connections rt)(client_fd \<mapsto> cn)
              | Some _ \<Rightarrow> wr_connections rt)\<rparr>;
         ok = w_ctl_ok w (os_ctls s);
         s = s\<lparr>os_ctls := os_ctls s + 1\<rparr> in
     if os_interest s client_fd \<noteq> None then None
     else if \<not> ok
     then accept_loop w
       (rt\<lparr>wr_connections := (wr_connections rt)(client_fd := None)\<rparr>)
       (s\<lparr>os_interest := (os_interest s)(client_fd := None)\<rparr>) rest
     else accept_loop w rt (s\<lparr>os_interest := (os_interest s)(client_fd \<mapsto> False)\<rparr>) rest)"

text \<open>
  One batch of \<open>epoll_wait\<close>: \<open>(True, \<dots>)\<close> is the return of the worker loop at the shutdown
  descriptor.
\<close>

fun process_events ::
  "world \<Rightarrow> WorkerRuntime \<Rightarrow> os \<Rightarrow> epoll_event list \<Rightarrow> (bool \<times> WorkerRuntime \<times> os) option" where
  "process_events w rt s [] = Some (False, rt, s)"
| "process_events w rt s (ev # evs) =
    (if ev_fd ev = wc_shutdown_fd (wr_config rt) then Some (True, rt, s)
     else
       case (if ev_fd ev = wr_listen_fd rt then accept_loop w rt s (os_accepts s)
             else handle_client_event w rt s ev) of
         None \<Rightarrow> None
       | Some (rt, s) \<Rightarrow> process_events w rt s evs)"

text \<open>
  \<open>run_worker_loop\<close> over the results of \<open>epoll_wait\<close> (\<open>None\<close>: minus one, with any \<open>errno\<close>).
  It returns zero when a batch holds the shutdown event; without one it keeps waiting, and
  the result is \<open>None\<close> when the given batches are used up.
\<close>

fun run_worker_loop ::
  "world \<Rightarrow> WorkerRuntime \<Rightarrow> os \<Rightarrow> epoll_event list option list \<Rightarrow>
    (int \<times> WorkerRuntime \<times> os) option" where
  "run_worker_loop w rt s [] = None"
| "run_worker_loop w rt s (None # rest) = run_worker_loop w rt s rest"
| "run_worker_loop w rt s (Some evs # rest) =
    (case process_events w rt s evs of
       None \<Rightarrow> None
     | Some (True, rt, s) \<Rightarrow> Some (0, rt, s)
     | Some (False, rt, s) \<Rightarrow> run_worker_loop w rt s rest)"

end
