(* ===== verification/Rtb_Worker_Inv.thy ===== *)
theory Rtb_Worker_Inv
  imports Rtb_Worker
begin

text \<open>
  What the worker of \<open>Rtb_Worker\<close> guarantees. A connection is described by its two byte
  streams: what was received is the encoding of the requests answered so far followed by the
  unread bytes, what was sent and is still to be sent is the encoding of the responses, in
  the order of the requests. Each operation on a connection is shown to preserve this
  (\<open>live\<close>), to leave everything else alone (\<open>conn_step\<close>), and to produce only answers of the
  request pipeline (\<open>answer_ok\<close>); the invariant of the worker collects both for all
  connections.
\<close>

section \<open>Streams and answers\<close>

definition requests_of :: "os \<Rightarrow> u64 \<Rightarrow> u8 list list" where
  "requests_of s i = map (\<lambda>e. fst (snd e)) (filter (\<lambda>e. fst e = i) (os_log s))"

definition responses_of :: "proto_lib \<Rightarrow> os \<Rightarrow> u64 \<Rightarrow> u8 list list" where
  "responses_of lib s i = map (\<lambda>e. payload_of lib (snd (snd e))) (filter (\<lambda>e. fst e = i) (os_log s))"

definition stream_ok :: "proto_lib \<Rightarrow> os \<Rightarrow> u64 \<Rightarrow> u8 list \<Rightarrow> u8 list \<Rightarrow> bool" where
  "stream_ok lib s i unread unsent \<longleftrightarrow>
    os_recv s i = concat (map encode_frame (requests_of s i)) @ unread \<and>
    os_sent s i @ unsent = concat (map encode_frame (responses_of lib s i))"

text \<open>
  An answer: the request is a frame body the library parses into a complete message whose
  context is valid, the response is what the pipeline decides for the arrival time \<open>now\<close> and
  some state of the generator.
\<close>

definition answer_at ::
  "proto_lib \<Rightarrow> u32 \<Rightarrow> CampaignStoreSnapshot \<Rightarrow> u64 \<Rightarrow> u8 list \<Rightarrow> BidResponse \<Rightarrow> bool" where
  "answer_at lib mx store now p r \<longleftrightarrow>
    p \<noteq> [] \<and> length p \<le> unat mx \<and> stageable lib r \<and>
    (\<exists>target rq rng.
      ParseFromArray lib p target = (True, rq) \<and> complete_request rq \<and> rng_wf rng \<and>
      context_valid (build_request_context (message_of rq) now) \<and>
      r = build_bid_response (context_of (message_of rq) now)
        (fst (pipeline_decision store (context_of (message_of rq) now) rng)))"

definition answer_ok :: "proto_lib \<Rightarrow> u32 \<Rightarrow> CampaignStoreSnapshot \<Rightarrow> u8 list \<Rightarrow> BidResponse \<Rightarrow> bool" where
  "answer_ok lib mx store p r \<longleftrightarrow> (\<exists>now. answer_at lib mx store now p r)"

section \<open>One connection\<close>

definition live :: "world \<Rightarrow> WorkerRuntime \<Rightarrow> os \<Rightarrow> ConnectionState \<Rightarrow> bool" where
  "live w rt s cn \<longleftrightarrow>
    0 \<le> cn_fd cn \<and> buffer_wf (cn_read_buffer cn) \<and> buffer_wf (cn_write_buffer cn) \<and>
    length (storage (cn_read_buffer cn)) = unat (wc_connection_buffer_capacity (wr_config rt)) \<and>
    stream_ok (w_lib w) s (cn_connection_id cn) (pending (cn_read_buffer cn))
      (pending (cn_write_buffer cn))"

text \<open>The flag, the send buffer and the registration with \<open>epoll\<close> agree.\<close>

definition synced :: "os \<Rightarrow> ConnectionState \<Rightarrow> bool" where
  "synced s cn \<longleftrightarrow>
    (cn_has_pending_write cn \<longleftrightarrow> pending (cn_write_buffer cn) \<noteq> []) \<and>
    os_interest s (cn_fd cn) = Some (cn_has_pending_write cn)"

text \<open>
  The read buffer is not full; a buffer without storage is full from the start, and the
  connection is closed at its first event.
\<close>

definition roomy :: "ConnectionState \<Rightarrow> bool" where
  "roomy cn \<longleftrightarrow>
    (storage (cn_read_buffer cn) \<noteq> [] \<longrightarrow>
      length (pending (cn_read_buffer cn)) < length (storage (cn_read_buffer cn)))"

text \<open>No complete frame is left behind: one is only kept waiting for a response to be sent.\<close>

definition idle :: "WorkerRuntime \<Rightarrow> ConnectionState \<Rightarrow> bool" where
  "idle rt cn \<longleftrightarrow> cn_has_pending_write cn \<or>
    decode_frame (unat (wc_max_frame_size (wr_config rt))) (pending (cn_read_buffer cn)) = Incomplete"

definition env_ok :: "world \<Rightarrow> WorkerRuntime \<Rightarrow> bool" where
  "env_ok w rt \<longleftrightarrow>
    serializes (w_lib w) \<and> unat (wc_connection_buffer_capacity (wr_config rt)) < max_vec \<and>
    unat (wc_max_frame_size (wr_config rt)) \<le> 2 ^ 32 - 5 \<and> rng_wf (wr_rng rt) \<and>
    (\<exists>store. wr_campaign_store rt = Some store \<and> store_wf store)"

text \<open>The recorder is shared between workers: \<open>others\<close> of its records are not of this one.\<close>

definition recorded :: "nat \<Rightarrow> WorkerRuntime \<Rightarrow> os \<Rightarrow> bool" where
  "recorded others rt s \<longleftrightarrow>
    (\<forall>r. wr_benchmark_recorder rt = Some r \<longrightarrow> length (br_requests r) = others + length (os_log s))"

text \<open>
  Processing a frame reads the clock four times before the pipeline does: at its start, before
  and after parsing, and for the time of arrival. So the arrival of a frame taken up after \<open>t\<close>
  readings is the reading \<open>t + 3\<close>; the readings of one request come before those of the next.
  A frame that becomes ready has fitted the read buffer with its length prefix.
\<close>

definition answered :: "world \<Rightarrow> WorkerRuntime \<Rightarrow> os \<Rightarrow> bool" where
  "answered w rt s \<longleftrightarrow>
    list_all2 (\<lambda>t e. answer_at (w_lib w) (wc_max_frame_size (wr_config rt)) (the (wr_campaign_store rt))
      (w_clock w (t + 3)) (fst (snd e)) (snd (snd e))) (os_arrivals s) (os_log s) \<and>
    sorted_wrt (\<lambda>t u. t + 3 < u) (os_arrivals s) \<and> (\<forall>t \<in> set (os_arrivals s). t + 3 < os_ticks s) \<and>
    (\<forall>e \<in> set (os_log s). length (fst (snd e)) + 4 \<le> unat (wc_connection_buffer_capacity (wr_config rt)))"

lemma answeredD:
  assumes "answered w rt s" "e \<in> set (os_log s)"
  shows "answer_ok (w_lib w) (wc_max_frame_size (wr_config rt)) (the (wr_campaign_store rt)) (fst (snd e)) (snd (snd e))"
    and "length (fst (snd e)) + 4 \<le> unat (wc_connection_buffer_capacity (wr_config rt))"
  using assms by (auto simp: answered_def answer_ok_def list_all2_conv_all_nth in_set_conv_nth)

lemma answered_later:
  "answered w rt s \<Longrightarrow> os_ticks s \<le> t \<Longrightarrow> answered w rt (s\<lparr>os_ticks := t\<rparr>)"
  by (fastforce simp: answered_def)

section \<open>What an operation on a connection may touch\<close>

definition conn_step ::
  "world \<Rightarrow> WorkerRuntime \<Rightarrow> os \<Rightarrow> ConnectionState \<Rightarrow> WorkerRuntime \<Rightarrow> os \<Rightarrow> ConnectionState \<Rightarrow> bool" where
  "conn_step w rt s cn rt' s' cn' \<longleftrightarrow>
    (wr_config rt' = wr_config rt \<and> wr_epoll_fd rt' = wr_epoll_fd rt \<and>
     wr_listen_fd rt' = wr_listen_fd rt \<and> wr_next_connection_id rt' = wr_next_connection_id rt \<and>
     wr_campaign_store rt' = wr_campaign_store rt \<and> wr_connections rt' = wr_connections rt) \<and>
    (cn_fd cn' = cn_fd cn \<and> cn_connection_id cn' = cn_connection_id cn) \<and>
    (env_ok w rt \<longrightarrow> env_ok w rt') \<and>
    (\<forall>k. recorded k rt s \<longrightarrow> recorded k rt' s') \<and> (answered w rt s \<longrightarrow> answered w rt' s') \<and>
    os_accepts s' = os_accepts s \<and>
    (\<forall>i. i \<noteq> cn_connection_id cn \<longrightarrow>
      os_recv s' i = os_recv s i \<and> os_sent s' i = os_sent s i \<and>
      requests_of s' i = requests_of s i \<and> responses_of (w_lib w) s' i = responses_of (w_lib w) s i) \<and>
    (\<forall>fd. fd \<noteq> cn_fd cn \<longrightarrow> os_interest s' fd = os_interest s fd)"

lemma conn_step_refl [intro]: "conn_step w rt s cn rt s cn"
  by (simp add: conn_step_def)

lemma conn_step_trans:
  "conn_step w rt s cn rt1 s1 cn1 \<Longrightarrow> conn_step w rt1 s1 cn1 rt2 s2 cn2 \<Longrightarrow>
    conn_step w rt s cn rt2 s2 cn2"
  unfolding conn_step_def by simp

lemma conn_stepD:
  assumes "conn_step w rt s cn rt' s' cn'"
  shows "wr_config rt' = wr_config rt" "wr_campaign_store rt' = wr_campaign_store rt"
    "wr_connections rt' = wr_connections rt" "wr_next_connection_id rt' = wr_next_connection_id rt"
    "wr_listen_fd rt' = wr_listen_fd rt" "wr_epoll_fd rt' = wr_epoll_fd rt"
    "cn_fd cn' = cn_fd cn" "cn_connection_id cn' = cn_connection_id cn"
    "os_accepts s' = os_accepts s"
  using assms by (simp_all add: conn_step_def)

section \<open>Flushing\<close>

lemma flush_loop_spec:
  assumes "flush_loop b results sent = Some (ok, b', sent', rest)" "buffer_wf b"
  shows "\<exists>out. sent' = sent @ out \<and> pending b = out @ pending b' \<and> buffer_wf b'"
  using assms
proof (induction b results sent arbitrary: ok b' sent' rest rule: flush_loop.induct)
  case (1 b sent)
  then show ?case by (auto split: if_splits)
next
  case (2 b res results sent)
  show ?case
  proof (cases "0 < readable_bytes b")
    case True
    show ?thesis
    proof (cases res)
      case (Wr_Bytes n)
      have n: "0 < n" "n \<le> unat (readable_bytes b)"
        and step: "flush_loop (consume_frame b (word_of_nat n)) results (sent @ take n (pending b)) =
          Some (ok, b', sent', rest)"
        using 2(3,4) True Wr_Bytes by (auto split: if_splits simp: read_span_pending)
      have mv: "n < max_vec"
        using n(2) buffer_wfD [OF 2(4)] by linarith
      moreover have "unat (word_of_nat n :: u64) = n"
        using mv by (simp add: unat_of_nat take_bit_eq_mod max_vec_def)
      ultimately have c: "buffer_wf (consume_frame b (word_of_nat n))"
        "pending (consume_frame b (word_of_nat n)) = drop n (pending b)"
        using consume_frame_spec [OF 2(4), of "word_of_nat n"] by simp_all
      have "\<exists>out. sent' = (sent @ take n (pending b)) @ out \<and> drop n (pending b) = out @ pending b' \<and>
          buffer_wf b'"
        using 2(1) [OF _ Wr_Bytes _ _] True n step c
        by (simp add: read_span_pending [OF 2(4)])
      then show ?thesis by (metis append.assoc append_take_drop_id)
    qed (use 2 True in auto)
  qed (use 2 in auto)
qed

lemma flush_pending_write_spec:
  assumes f: "flush_pending_write w rt s cn = Some (ok, s', cn')" and l: "live w rt s cn"
  shows "conn_step w rt s cn rt s' cn'" and "live w rt s' cn'"
    and "cn_read_buffer cn' = cn_read_buffer cn" and "ok \<Longrightarrow> synced s' cn'"
    and "os_reads s' = os_reads s"
proof -
  obtain ok0 b sent rest where fl: "flush_loop (cn_write_buffer cn) (os_writes s) [] = Some (ok0, b, sent, rest)"
    using f by (auto simp: flush_pending_write_def split: option.splits)
  have wb: "buffer_wf (cn_write_buffer cn)" using l by (simp add: live_def)
  from flush_loop_spec [OF fl wb] have b: "pending (cn_write_buffer cn) = sent @ pending b" "buffer_wf b"
    by auto
  note f' = f [unfolded flush_pending_write_def fl, simplified Let_def option.case prod.case]
  note cases = f' [unfolded update_client_events_def Let_def signal_shutdown_fd_def]
  show "conn_step w rt s cn rt s' cn'"
    using cases
    by (auto simp: conn_step_def requests_of_def responses_of_def recorded_def answered_def
        split: if_splits)
  show "live w rt s' cn'"
    using cases l b
    by (auto simp: live_def stream_ok_def requests_of_def responses_of_def split: if_splits)
  show "cn_read_buffer cn' = cn_read_buffer cn" "os_reads s' = os_reads s"
    using cases by (auto split: if_splits)
  show "synced s' cn'" if ok
    using cases b readable_zero_iff [OF b(2)] that
    by (auto simp: synced_def split: if_splits)
qed


section \<open>Processing a frame\<close>

text \<open>The step that answers a request: consume the frame, stage the response, log both.\<close>

lemma answer_step:
  assumes l: "live w rt s cn" and env: "env_ok w rt"
    and c: "decode_frame (unat (wc_max_frame_size (wr_config rt))) (pending (cn_read_buffer cn)) = Complete p rest"
    and empty: "pending (cn_write_buffer cn) = []"
    and wb: "buffer_wf wb" "pending wb = encode_frame (payload_of (w_lib w) r)"
    and ok: "answer_at (w_lib w) (wc_max_frame_size (wr_config rt)) (the (wr_campaign_store rt))
      (w_clock w (os_ticks s + 3)) p r"
    and rng: "rng_wf rng" and later: "os_ticks s + 3 < t"
    and rt': "rt' = rt\<lparr>wr_parse_scratch := scratch, wr_rng := rng,
      wr_benchmark_recorder := map_option (\<lambda>b. record_request b tm) (wr_benchmark_recorder rt)\<rparr>"
    and s': "s' = s\<lparr>os_ticks := t, os_log := os_log s @ [(cn_connection_id cn, p, r)],
      os_arrivals := os_arrivals s @ [os_ticks s], os_ctls := k, os_interest := ints\<rparr>"
    and ints: "\<And>fd. fd \<noteq> cn_fd cn \<Longrightarrow> ints fd = os_interest s fd"
    and cn': "cn' = cn\<lparr>cn_write_buffer := wb, cn_read_buffer := consume_frame (cn_read_buffer cn)
        (ucast (ucast (4 + word_of_nat (length p) :: u64) :: u32)), cn_has_pending_write := True\<rparr>"
  shows "conn_step w rt s cn rt' s' cn'" and "live w rt' s' cn'" and "roomy cn'"
proof -
  have rb: "buffer_wf (cn_read_buffer cn)" using l by (simp add: live_def)
  have len: "length p \<le> unat (wc_max_frame_size (wr_config rt))" using decode_Complete_length [OF c] by simp
  have mx: "unat (wc_max_frame_size (wr_config rt)) \<le> 2 ^ 32 - 5" using env by (simp add: env_ok_def)
  note n = frame_total_bytes [OF mx len]
  have p: "pending (cn_read_buffer cn) = encode_frame p @ rest" by (rule encode_decode [OF c])
  have cons: "buffer_wf (cn_read_buffer cn')" "pending (cn_read_buffer cn') = rest"
    using consume_frame_spec [OF rb, of "ucast (ucast (4 + word_of_nat (length p) :: u64) :: u32)"]
      len mx n p by (simp_all add: cn' max_vec_def encode_frame_def)
  have st: "stream_ok (w_lib w) s' (cn_connection_id cn) rest (encode_frame (payload_of (w_lib w) r))"
    using l empty p by (simp add: live_def stream_ok_def s' requests_of_def responses_of_def)
  show "live w rt' s' cn'"
    using l cons st wb by (simp add: live_def rt' cn' consume_frame_storage)
  have "length (pending (cn_read_buffer cn)) \<le> length (storage (cn_read_buffer cn))"
    using buffer_wfD [OF rb] by linarith
  then have fit: "length p + 4 + length rest \<le> length (storage (cn_read_buffer cn))"
    using p by (simp add: encode_frame_def be_bytes_def)
  then show "roomy cn'" using cons by (simp add: roomy_def cn' consume_frame_storage)
  have "answered w rt' s'" if "answered w rt s"
    using that ok later fit l
    by (fastforce simp: answered_def rt' s' live_def sorted_wrt_append intro: list_all2_appendI)
  then show "conn_step w rt s cn rt' s' cn'"
    using env rng ints
    by (auto simp: conn_step_def rt' s' cn' requests_of_def responses_of_def recorded_def
        env_ok_def record_request_def)
qed

lemma answer_parsed:
  assumes parse: "parse_bid_request lib p target = (PS_Ok, scratch, pm)"
    and "handle_status (context_of pm now) \<noteq> HS_DropConnection" "rng_wf rng"
    and "p \<noteq> []" "length p \<le> unat mx"
    and r: "r = build_bid_response (context_of pm now) (fst (pipeline_decision store (context_of pm now) rng))"
    and "stageable lib r"
  shows "answer_at lib mx store now p r"
proof -
  obtain rq where rq: "ParseFromArray lib p (request target) = (True, rq)"
    "complete_request rq" "pm = message_of rq"
    using parse_ok_iff [of lib p target] parse_result [of lib p target] parse
    by (metis fst_conv snd_conv prod.collapse)
  moreover have "context_valid (build_request_context pm now)"
    using assms(2) handle_status_drop [of pm now] rq(3) by (auto simp: message_of_def)
  ultimately show ?thesis
    using assms by (auto simp: answer_at_def)
qed

definition process_result ::
  "world \<Rightarrow> WorkerRuntime \<Rightarrow> os \<Rightarrow> ConnectionState \<Rightarrow>
    ProcessFramesOutcome \<times> WorkerRuntime \<times> os \<times> ConnectionState \<Rightarrow> bool" where
  "process_result w rt s cn res = (case res of (out, rt', s', cn') \<Rightarrow>
    conn_step w rt s cn rt' s' cn' \<and> live w rt' s' cn' \<and> os_reads s' = os_reads s \<and>
    (out = PF_Continue \<longrightarrow> rt' = rt \<and> s' = s \<and> cn' = cn \<and> idle rt cn) \<and>
    (out = PF_PauseForWrite \<longrightarrow> synced s' cn' \<and> cn_has_pending_write cn' \<and> roomy cn'))"

lemma quiet_close:
  assumes "live w rt s cn" "rng_wf rng" "buffer_wf wb" "pending wb = pending (cn_write_buffer cn)"
    and "os_ticks s \<le> t"
  shows "process_result w rt s cn (PF_CloseConnection, rt\<lparr>wr_parse_scratch := scratch, wr_rng := rng\<rparr>,
    s\<lparr>os_ticks := t\<rparr>, cn\<lparr>cn_write_buffer := wb\<rparr>)"
  using assms answered_later [of w rt s t]
  by (simp add: process_result_def live_def stream_ok_def conn_step_def requests_of_def
      responses_of_def recorded_def env_ok_def, simp add: answered_def)

lemma process_parsed:
  assumes l: "live w rt s cn" and empty: "pending (cn_write_buffer cn) = []" and env: "env_ok w rt"
    and c: "decode_frame (unat (wc_max_frame_size (wr_config rt))) (pending (cn_read_buffer cn)) = Complete p rest"
    and parse: "parse_bid_request (w_lib w) p (wr_parse_scratch rt) = (PS_Ok, scratch, pm)"
  shows "\<exists>res. process_ready_frames w rt s cn = Some res \<and> process_result w rt s cn res"
proof -
  have rb: "buffer_wf (cn_read_buffer cn)" and wb: "buffer_wf (cn_write_buffer cn)"
    using l by (simp_all add: live_def)
  from env obtain store where store: "wr_campaign_store rt = Some store" "store_wf store"
    and lib: "serializes (w_lib w)" and rng: "rng_wf (wr_rng rt)" by (auto simp: env_ok_def)
  note te = try_extract_frame_spec [OF rb, of "wc_max_frame_size (wr_config rt)",
      unfolded c frame_parse.case] Complete_payload(1) [OF rb c]
  let ?rc = "context_of pm (w_clock w (os_ticks s + 3))"
  let ?d = "pipeline_decision store ?rc (wr_rng rt)"
  let ?r = "build_bid_response ?rc (fst ?d)"
  obtain tm t where h: "handle_request (w_clock w) (os_ticks s + 4) pm (w_clock w (os_ticks s + 3))
      store (wr_rng rt) (Some empty_handle_timing) = Some
    (\<lparr>hr_status = handle_status ?rc, hr_context = ?rc, hr_decision = fst ?d, hr_response = ?r\<rparr>,
     snd ?d, tm, t)" and later: "os_ticks s + 4 \<le> t"
    using handle_request_pipeline [OF store(2)] by blast
  have rng': "rng_wf (snd ?d)" using rng by (rule pipeline_decision_wf)
  obtain staged wb where stage: "stage_response_frame (w_lib w) ?r (cn_write_buffer cn) = (staged, wb)"
    by fastforce
  note wb' = stage_response_frame_spec [OF wb lib, of ?r, unfolded stage fst_conv snd_conv]
  show ?thesis
  proof (cases "handle_status ?rc \<noteq> HS_DropConnection \<and> staged")
    case False
    then have "process_ready_frames w rt s cn = Some
      (PF_CloseConnection, rt\<lparr>wr_parse_scratch := scratch, wr_rng := snd ?d\<rparr>,
       s\<lparr>os_ticks := if handle_status ?rc = HS_DropConnection then t else t + 1\<rparr>,
       cn\<lparr>cn_write_buffer := if handle_status ?rc = HS_DropConnection then cn_write_buffer cn else wb\<rparr>)"
      using te parse h stage store
      by (cases "handle_status ?rc = HS_DropConnection")
         (simp_all add: process_ready_frames_def Let_def)
    moreover have "buffer_wf (if handle_status ?rc = HS_DropConnection then cn_write_buffer cn else wb)"
      "pending (if handle_status ?rc = HS_DropConnection then cn_write_buffer cn else wb) =
        pending (cn_write_buffer cn)"
      using wb wb' False by auto
    moreover have "os_ticks s \<le> (if handle_status ?rc = HS_DropConnection then t else t + 1)"
      using later by simp
    ultimately show ?thesis using quiet_close [OF l rng'] by blast
  next
    case F: True
    then have staged: "pending wb = encode_frame (payload_of (w_lib w) ?r)" using wb'(3) by simp
    have ok: "answer_at (w_lib w) (wc_max_frame_size (wr_config rt)) (the (wr_campaign_store rt))
        (w_clock w (os_ticks s + 3)) p ?r"
      using answer_parsed [OF parse _ rng _ _ refl] F wb'(1) store(1) decode_Complete_length [OF c]
      by simp
    let ?up = "w_ctl_ok w (os_ctls s)"
    let ?ints = "if ?up then (os_interest s)(cn_fd cn \<mapsto> True) else os_interest s"
    define tm' where "tm' =
      \<lparr>rt_parse_ns = w_clock w (os_ticks s + 2) - w_clock w (os_ticks s + 1),
       rt_normalize_validate_ns = ht_normalize_validate_ns (the tm),
       rt_retrieve_ns = ht_retrieve_ns (the tm), rt_decide_ns = ht_decide_ns (the tm),
       rt_response_build_ns = ht_response_build_ns (the tm),
       rt_response_stage_ns = w_clock w (t + 1) - w_clock w t,
       rt_total_internal_ns = w_clock w (t + 1) - w_clock w (os_ticks s)\<rparr>"
    have eq: "process_ready_frames w rt s cn = Some
      (if ?up then PF_PauseForWrite else PF_CloseConnection,
       rt\<lparr>wr_parse_scratch := scratch, wr_rng := snd ?d, wr_benchmark_recorder :=
         map_option (\<lambda>b. record_request b tm') (wr_benchmark_recorder rt)\<rparr>,
       s\<lparr>os_ticks := t + 2, os_log := os_log s @ [(cn_connection_id cn, p, ?r)],
         os_arrivals := os_arrivals s @ [os_ticks s], os_ctls := os_ctls s + 1, os_interest := ?ints\<rparr>,
       cn\<lparr>cn_write_buffer := wb, cn_read_buffer := consume_frame (cn_read_buffer cn)
         (ucast (ucast (4 + word_of_nat (length p) :: u64) :: u32)), cn_has_pending_write := True\<rparr>)"
      using F te parse h stage store
      by (simp add: process_ready_frames_def Let_def update_client_events_def tm'_def)
    have "os_ticks s + 3 < t + 2" using later by simp
    note step = answer_step [OF l env c empty wb'(2) staged ok rng' this refl refl _ refl,
        where ints = ?ints]
    show ?thesis
      unfolding eq using step
      by (auto simp: process_result_def synced_def staged encode_frame_def be_bytes_def)
  qed
qed

lemma process_ready_frames_spec:
  assumes l: "live w rt s cn" and np: "\<not> cn_has_pending_write cn" and sy: "synced s cn"
    and env: "env_ok w rt"
  shows "\<exists>res. process_ready_frames w rt s cn = Some res \<and> process_result w rt s cn res"
proof -
  have rb: "buffer_wf (cn_read_buffer cn)" using l by (simp add: live_def)
  have empty: "pending (cn_write_buffer cn) = []" using np sy by (simp add: synced_def)
  note te = try_extract_frame_spec [OF rb, of "wc_max_frame_size (wr_config rt)"]
  show ?thesis
  proof (cases "decode_frame (unat (wc_max_frame_size (wr_config rt))) (pending (cn_read_buffer cn))")
    case Incomplete
    then show ?thesis using l te
      by (auto simp: process_result_def process_ready_frames_def idle_def)
  next
    case BadLength
    then show ?thesis using l te by (auto simp: process_result_def process_ready_frames_def)
  next
    case (Complete p rest)
    obtain ps scratch pm where parse:
      "parse_bid_request (w_lib w) p (wr_parse_scratch rt) = (ps, scratch, pm)"
      by (metis prod_cases3)
    show ?thesis
    proof (cases "ps = PS_Ok")
      case False
      then show ?thesis
        using l Complete_payload(1) [OF rb Complete] parse te Complete answered_later [of w rt s "os_ticks s + 3"]
        by (auto simp: process_result_def process_ready_frames_def live_def stream_ok_def
            conn_step_def requests_of_def responses_of_def recorded_def env_ok_def) (simp add: answered_def)
    next
      case True
      then show ?thesis using process_parsed [OF l empty env Complete] parse by simp
    qed
  qed
qed


section \<open>Reading\<close>

lemma make_room_spec:
  assumes "buffer_wf b"
  shows "buffer_wf (make_room b)" and "pending (make_room b) = pending b"
    and "length (storage (make_room b)) = length (storage b)"
  using compact_spec [OF assms] assms by (simp_all add: make_room_def)

text \<open>Room runs out exactly when the unread bytes fill the buffer.\<close>

lemma make_room_full:
  assumes "buffer_wf b"
  shows "snd (writable_region (make_room b)) = 0 \<longleftrightarrow> length (pending b) = length (storage b)"
proof -
  note w = buffer_wfD [OF assms] writable_region_wf [OF assms]
  note c = compact_spec [OF assms]
  note wc = buffer_wfD [OF c(1)] writable_region_wf [OF c(1)]
  have le: "length (pending b) \<le> length (storage b)" using w by linarith
  show ?thesis
  proof (cases "snd (writable_region b) = 0")
    case True
    then have full: "unat (write_offset b) = length (storage b)" using w by (simp add: unat_eq_0)
    have "snd (writable_region (compact b)) = 0 \<longleftrightarrow> unat (write_offset (compact b)) = length (storage b)"
      using wc c(4) by (auto simp: unat_eq_0 [symmetric])
    also have "\<dots> \<longleftrightarrow> length (pending b) = length (storage b)"
    proof (cases "read_offset b = 0")
      case True
      then show ?thesis using full w by (simp add: compact_def)
    qed (use c(3) in simp)
    finally show ?thesis using True by (simp add: make_room_def)
  next
    case False
    then have "unat (snd (writable_region b)) \<noteq> 0" by (simp add: unat_eq_0)
    then have "length (pending b) < length (storage b)" using w by linarith
    with False show ?thesis by (simp add: make_room_def)
  qed
qed

lemma receive_spec:
  assumes "buffer_wf b" "length bs \<le> unat (snd (writable_region b))"
  shows "buffer_wf (receive b bs)" and "pending (receive b bs) = pending b @ bs"
    and "length (storage (receive b bs)) = length (storage b)"
  using write_commit [OF assms] write_commit_offset [OF assms] writable_region_wf [OF assms(1)]
  by (simp_all add: receive_def, simp add: commit_write_def write_span_def)

text \<open>One round of the loop up to the processing of the bytes.\<close>

lemma receive_step:
  fixes cn :: ConnectionState
  assumes l: "live w rt s cn"
  defines "cn1 \<equiv> cn\<lparr>cn_read_buffer := make_room (cn_read_buffer cn)\<rparr>"
  assumes len: "length bs \<le> unat (snd (writable_region (cn_read_buffer cn1)))"
  defines "cn2 \<equiv> cn1\<lparr>cn_read_buffer := receive (cn_read_buffer cn1) bs\<rparr>"
    and "s2 \<equiv> s\<lparr>os_recv := (os_recv s)(cn_connection_id cn := os_recv s (cn_connection_id cn) @ bs)\<rparr>"
  shows "conn_step w rt s cn rt s2 cn2" and "live w rt s2 cn2"
    and "synced s cn \<Longrightarrow> synced s2 cn2" and "cn_has_pending_write cn2 = cn_has_pending_write cn"
proof -
  have rb: "buffer_wf (cn_read_buffer cn)" using l by (simp add: live_def)
  note m = make_room_spec [OF rb]
  have "length bs \<le> unat (snd (writable_region (make_room (cn_read_buffer cn))))"
    using len by (simp add: cn1_def)
  note r = receive_spec [OF m(1) this]
  show "conn_step w rt s cn rt s2 cn2"
    by (simp add: conn_step_def cn1_def cn2_def s2_def requests_of_def responses_of_def recorded_def
        answered_def)
  show "live w rt s2 cn2"
    using l m r
    by (simp add: live_def stream_ok_def cn1_def cn2_def s2_def requests_of_def responses_of_def)
  show "synced s cn \<Longrightarrow> synced s2 cn2" "cn_has_pending_write cn2 = cn_has_pending_write cn"
    by (simp_all add: synced_def cn1_def cn2_def s2_def)
qed

lemma os_reads_irrelevant [simp]:
  "live w rt (s\<lparr>os_reads := rest\<rparr>) cn \<longleftrightarrow> live w rt s cn"
  "synced (s\<lparr>os_reads := rest\<rparr>) cn \<longleftrightarrow> synced s cn"
  "conn_step w rt s cn rt' (s'\<lparr>os_reads := rest\<rparr>) cn' \<longleftrightarrow> conn_step w rt s cn rt' s' cn'"
  by (simp_all add: live_def stream_ok_def conn_step_def synced_def requests_of_def
      responses_of_def recorded_def answered_def)

lemma room_step:
  fixes cn :: ConnectionState
  assumes "live w rt s cn"
  defines "cn1 \<equiv> cn\<lparr>cn_read_buffer := make_room (cn_read_buffer cn)\<rparr>"
  shows "conn_step w rt s cn rt s cn1" and "live w rt s cn1"
    and "synced s cn1 \<longleftrightarrow> synced s cn" and "idle rt cn1 \<longleftrightarrow> idle rt cn"
    and "cn_has_pending_write cn1 = cn_has_pending_write cn"
  using assms make_room_spec [of "cn_read_buffer cn"]
  by (simp_all add: live_def conn_step_def synced_def idle_def)

text \<open>The state after \<open>bs\<close> were read, and the round of the loop that reads them.\<close>

abbreviation got_bytes :: "ConnectionState \<Rightarrow> u8 list \<Rightarrow> ConnectionState" where
  "got_bytes cn bs \<equiv> cn\<lparr>cn_read_buffer := receive (make_room (cn_read_buffer cn)) bs\<rparr>"

abbreviation got_os :: "os \<Rightarrow> ConnectionState \<Rightarrow> u8 list \<Rightarrow> os" where
  "got_os s cn bs \<equiv>
    s\<lparr>os_recv := (os_recv s)(cn_connection_id cn := os_recv s (cn_connection_id cn) @ bs)\<rparr>"

abbreviation read_room :: "ConnectionState \<Rightarrow> u64" where
  "read_room cn \<equiv> snd (writable_region (make_room (cn_read_buffer cn)))"

lemma room_roomy:
  assumes "live w rt s cn" "read_room cn \<noteq> 0"
  shows "roomy (cn\<lparr>cn_read_buffer := make_room (cn_read_buffer cn)\<rparr>)"
proof -
  have rb: "buffer_wf (cn_read_buffer cn)" using assms(1) by (simp add: live_def)
  then have "length (pending (cn_read_buffer cn)) \<le> length (storage (cn_read_buffer cn))"
    using buffer_wfD [OF rb] by linarith
  with assms(2) make_room_full [OF rb] make_room_spec [OF rb] show ?thesis
    by (simp add: roomy_def)
qed

lemma read_loop_bytesD:
  assumes "read_loop w rt s cn (Rd_Bytes bs # rest) = Some res" "read_room cn \<noteq> 0"
  shows "bs \<noteq> []" "length bs \<le> unat (read_room cn)"
  using assms by (auto simp: read_loop.simps Let_def split: if_splits)

lemma read_round:
  assumes l: "live w rt s cn" "\<not> cn_has_pending_write cn" "synced s cn" and env: "env_ok w rt"
    and bs: "bs \<noteq> []" "length bs \<le> unat (read_room cn)" and room: "read_room cn \<noteq> 0"
  obtains out rt3 s3 cn3 where
    "conn_step w rt s cn rt (got_os s cn bs) (got_bytes cn bs)" "live w rt (got_os s cn bs) (got_bytes cn bs)"
    "\<not> cn_has_pending_write (got_bytes cn bs)" "synced (got_os s cn bs) (got_bytes cn bs)"
    "process_ready_frames w rt (got_os s cn bs) (got_bytes cn bs) = Some (out, rt3, s3, cn3)"
    "process_result w rt (got_os s cn bs) (got_bytes cn bs) (out, rt3, s3, cn3)"
    "read_loop w rt s cn (Rd_Bytes bs # rest) = (case out of
        PF_CloseConnection \<Rightarrow> Some (True, rt3, s3\<lparr>os_reads := rest\<rparr>, cn3)
      | PF_PauseForWrite \<Rightarrow> Some (False, rt3, s3\<lparr>os_reads := rest\<rparr>, cn3)
      | PF_Continue \<Rightarrow> read_loop w rt3 s3 cn3 rest)"
proof -
  have st: "conn_step w rt s cn rt (got_os s cn bs) (got_bytes cn bs)"
    "live w rt (got_os s cn bs) (got_bytes cn bs)" "synced (got_os s cn bs) (got_bytes cn bs)"
    using receive_step [OF l(1), of bs] bs(2) l(3) by simp_all
  have np: "\<not> cn_has_pending_write (got_bytes cn bs)" using l(2) by simp
  obtain out rt3 s3 cn3 where pr: "process_ready_frames w rt (got_os s cn bs) (got_bytes cn bs) = Some (out, rt3, s3, cn3)"
    and res: "process_result w rt (got_os s cn bs) (got_bytes cn bs) (out, rt3, s3, cn3)"
    using process_ready_frames_spec [OF st(2) np st(3) env] by (metis prod_cases4)
  have "read_loop w rt s cn (Rd_Bytes bs # rest) = (case out of
        PF_CloseConnection \<Rightarrow> Some (True, rt3, s3\<lparr>os_reads := rest\<rparr>, cn3)
      | PF_PauseForWrite \<Rightarrow> Some (False, rt3, s3\<lparr>os_reads := rest\<rparr>, cn3)
      | PF_Continue \<Rightarrow> read_loop w rt3 s3 cn3 rest)"
    using bs room pr
    by (simp add: read_loop.simps [of w rt s cn] Let_def not_less split: ProcessFramesOutcome.splits)
  from that [OF st(1,2) np st(3) pr res this] show thesis .
qed

lemma read_loop_spec:
  assumes "read_loop w rt s cn reads = Some (close, rt', s', cn')"
    and "live w rt s cn" "\<not> cn_has_pending_write cn" "synced s cn" "idle rt cn" "env_ok w rt"
  shows "conn_step w rt s cn rt' s' cn' \<and> live w rt' s' cn' \<and>
    (\<not> close \<longrightarrow> synced s' cn' \<and> idle rt' cn' \<and> roomy cn')"
  using assms
proof (induction reads arbitrary: s cn rt)
  case Nil
  then show ?case
    using room_step [OF Nil.prems(2)]
    by (auto simp: read_loop.simps Let_def split: if_splits)
next
  case (Cons res rest)
  note rs = room_step [OF Cons.prems(2)]
  show ?case
  proof (cases "read_room cn = 0")
    case True
    then show ?thesis using Cons.prems rs
      by (auto simp: read_loop.simps Let_def)
  next
    case room: False
    show ?thesis
    proof (cases res)
      case (Rd_Bytes bs)
      obtain out rt3 s3 cn3 where st: "conn_step w rt s cn rt (got_os s cn bs) (got_bytes cn bs)"
        "live w rt (got_os s cn bs) (got_bytes cn bs)" "\<not> cn_has_pending_write (got_bytes cn bs)"
        "synced (got_os s cn bs) (got_bytes cn bs)"
        and ok: "process_result w rt (got_os s cn bs) (got_bytes cn bs) (out, rt3, s3, cn3)"
        and eq: "read_loop w rt s cn (Rd_Bytes bs # rest) = (case out of
            PF_CloseConnection \<Rightarrow> Some (True, rt3, s3\<lparr>os_reads := rest\<rparr>, cn3)
          | PF_PauseForWrite \<Rightarrow> Some (False, rt3, s3\<lparr>os_reads := rest\<rparr>, cn3)
          | PF_Continue \<Rightarrow> read_loop w rt3 s3 cn3 rest)"
        using read_round [OF Cons.prems(2-4,6) read_loop_bytesD [OF Cons.prems(1) [unfolded Rd_Bytes] room] room]
        by metis
      show ?thesis
      proof (cases out)
        case PF_Continue
        then have same: "rt3 = rt" "s3 = got_os s cn bs" "cn3 = got_bytes cn bs" "idle rt (got_bytes cn bs)"
          using ok by (simp_all add: process_result_def)
        then have "read_loop w rt (got_os s cn bs) (got_bytes cn bs) rest = Some (close, rt', s', cn')"
          using eq PF_Continue Cons.prems(1) Rd_Bytes by simp
        from Cons.IH [OF this st(2-4) same(4) Cons.prems(6)] show ?thesis
          using conn_step_trans [OF st(1)] by blast
      qed (use ok eq Cons.prems(1) Rd_Bytes conn_step_trans [OF st(1)] in
          \<open>auto simp: process_result_def idle_def\<close>)
    next
      case Rd_EINTR
      then have "read_loop w rt s (cn\<lparr>cn_read_buffer := make_room (cn_read_buffer cn)\<rparr>) rest = Some (close, rt', s', cn')"
        using Cons.prems(1) room by (simp add: read_loop.simps [of w rt s cn] Let_def)
      from Cons.IH [OF this rs(2)] show ?thesis
        using Cons.prems(3-6) rs conn_step_trans [OF rs(1)] by blast
    qed (use room Cons.prems rs room_roomy [OF Cons.prems(2) room] in \<open>auto simp: read_loop.simps Let_def\<close>)
  qed
qed


section \<open>The invariant of the worker\<close>

definition fresh :: "proto_lib \<Rightarrow> os \<Rightarrow> u64 \<Rightarrow> bool" where
  "fresh lib s i \<longleftrightarrow>
    os_recv s i = [] \<and> os_sent s i = [] \<and> requests_of s i = [] \<and> responses_of lib s i = []"

definition streamed :: "proto_lib \<Rightarrow> os \<Rightarrow> u64 \<Rightarrow> bool" where
  "streamed lib s i \<longleftrightarrow> (\<exists>unread unsent. stream_ok lib s i unread unsent)"

definition connection_inv :: "world \<Rightarrow> WorkerRuntime \<Rightarrow> os \<Rightarrow> int \<Rightarrow> ConnectionState \<Rightarrow> bool" where
  "connection_inv w rt s fd cn \<longleftrightarrow>
    cn_fd cn = fd \<and> live w rt s cn \<and> synced s cn \<and> idle rt cn \<and> roomy cn \<and>
    unat (cn_connection_id cn) < unat (wr_next_connection_id rt)"

definition ids_distinct :: "(int \<rightharpoonup> ConnectionState) \<Rightarrow> bool" where
  "ids_distinct m \<longleftrightarrow>
    (\<forall>fd fd' cn cn'. m fd = Some cn \<longrightarrow> m fd' = Some cn' \<longrightarrow>
      cn_connection_id cn = cn_connection_id cn' \<longrightarrow> fd = fd')"

text \<open>The first line is the state of the worker as such, the rest that of its connections.\<close>

definition worker_inv :: "nat \<Rightarrow> world \<Rightarrow> WorkerRuntime \<Rightarrow> os \<Rightarrow> bool" where
  "worker_inv k w rt s \<longleftrightarrow>
    (env_ok w rt \<and> recorded k rt s \<and> answered w rt s) \<and>
    (\<forall>fd cn. wr_connections rt fd = Some cn \<longrightarrow> connection_inv w rt s fd cn) \<and>
    ids_distinct (wr_connections rt) \<and>
    (\<forall>fd. wr_connections rt fd = None \<longrightarrow> os_interest s fd = None) \<and>
    (\<forall>i. streamed (w_lib w) s i) \<and>
    (\<forall>i. unat (wr_next_connection_id rt) \<le> unat i \<longrightarrow> fresh (w_lib w) s i) \<and>
    unat (wr_next_connection_id rt) + length (os_accepts s) < 2 ^ 64"

lemma worker_invD:
  assumes "worker_inv k w rt s"
  shows "env_ok w rt" "recorded k rt s" "answered w rt s" "ids_distinct (wr_connections rt)"
    "wr_connections rt fd = Some cn \<Longrightarrow> connection_inv w rt s fd cn"
    "wr_connections rt fd = None \<Longrightarrow> os_interest s fd = None"
    "streamed (w_lib w) s i"
    "unat (wr_next_connection_id rt) \<le> unat i \<Longrightarrow> fresh (w_lib w) s i"
    "unat (wr_next_connection_id rt) + length (os_accepts s) < 2 ^ 64"
  using assms by (simp_all add: worker_inv_def)

lemma connection_invD:
  assumes "connection_inv w rt s fd cn"
  shows "cn_fd cn = fd" "0 \<le> fd" "live w rt s cn" "synced s cn" "idle rt cn"
    "unat (cn_connection_id cn) < unat (wr_next_connection_id rt)" "roomy cn"
  using assms by (auto simp: connection_inv_def live_def)

text \<open>What an operation on one connection does to the others.\<close>

lemma conn_step_other:
  assumes st: "conn_step w rt s cn rt' s' cn'" and inv: "connection_inv w rt s fd cn2"
    and ne: "fd \<noteq> cn_fd cn" "cn_connection_id cn2 \<noteq> cn_connection_id cn"
  shows "connection_inv w rt' s' fd cn2"
  using assms
  by (auto simp: conn_step_def connection_inv_def live_def stream_ok_def synced_def idle_def)

lemma conn_step_streams:
  assumes st: "conn_step w rt s cn rt' s' cn'" and l: "live w rt' s' cn'"
    and "streamed (w_lib w) s i"
  shows "streamed (w_lib w) s' i"
proof (cases "i = cn_connection_id cn")
  case True
  then show ?thesis using l conn_stepD(8) [OF st] by (auto simp: live_def streamed_def)
qed (use assms in \<open>auto simp: conn_step_def stream_ok_def streamed_def\<close>)

lemma conn_step_elsewhere:
  assumes "conn_step w rt s cn rt' s' cn'" and "i \<noteq> cn_connection_id cn"
  shows "fresh (w_lib w) s' i \<longleftrightarrow> fresh (w_lib w) s i"
  using assms by (simp add: conn_step_def fresh_def)

lemma connections_irrelevant [simp]:
  "env_ok w (rt\<lparr>wr_connections := m\<rparr>) \<longleftrightarrow> env_ok w rt"
  "recorded k (rt\<lparr>wr_connections := m\<rparr>) s \<longleftrightarrow> recorded k rt s"
  "answered w (rt\<lparr>wr_connections := m\<rparr>) s \<longleftrightarrow> answered w rt s"
  "connection_inv w (rt\<lparr>wr_connections := m\<rparr>) s fd cn \<longleftrightarrow> connection_inv w rt s fd cn"
  by (simp_all add: env_ok_def recorded_def answered_def connection_inv_def live_def idle_def)

lemma unregister_irrelevant [simp]:
  "recorded k rt (s\<lparr>os_ctls := n, os_interest := ints\<rparr>) \<longleftrightarrow> recorded k rt s"
  "answered w rt (s\<lparr>os_ctls := n, os_interest := ints\<rparr>) \<longleftrightarrow> answered w rt s"
  "stream_ok lib (s\<lparr>os_ctls := n, os_interest := ints\<rparr>) i unread unsent \<longleftrightarrow> stream_ok lib s i unread unsent"
  "streamed lib (s\<lparr>os_ctls := n, os_interest := ints\<rparr>) i \<longleftrightarrow> streamed lib s i"
  "fresh lib (s\<lparr>os_ctls := n, os_interest := ints\<rparr>) i \<longleftrightarrow> fresh lib s i"
  "live w rt (s\<lparr>os_ctls := n, os_interest := ints\<rparr>) cn \<longleftrightarrow> live w rt s cn"
  by (simp_all add: recorded_def answered_def stream_ok_def streamed_def fresh_def requests_of_def
      responses_of_def live_def)

lemma connection_inv_unregister:
  "connection_inv w rt s fd cn \<Longrightarrow> ints fd = os_interest s fd \<Longrightarrow>
    connection_inv w rt (s\<lparr>os_ctls := n, os_interest := ints\<rparr>) fd cn"
  by (auto simp: connection_inv_def synced_def)

lemma close_inv:
  assumes inv: "worker_inv k w rt s"
  shows "worker_inv k w (fst (close_connection rt s fd)) (snd (close_connection rt s fd))"
  using worker_invD [OF inv]
  by (auto simp: close_connection_def worker_inv_def ids_distinct_def connection_inv_unregister)

lemma conn_step_inv:
  assumes inv: "worker_inv k w rt s" and cn: "wr_connections rt fd = Some cn"
    and st: "conn_step w rt s cn rt' s' cn'" and l: "live w rt' s' cn'"
  shows "synced s' cn' \<Longrightarrow> idle rt' cn' \<Longrightarrow> roomy cn' \<Longrightarrow> worker_inv k w (put_connection rt' cn' fd) s'"
    and "\<exists>rt2 s2. close_connection (put_connection rt' cn' fd) s' fd = (rt2, s2) \<and> worker_inv k w rt2 s2"
proof -
  note i = worker_invD [OF inv]
  note c = connection_invD [OF i(5) [OF cn]]
  note d = conn_stepD [OF st]
  have others: "connection_inv w rt' s' fd2 cn2" if "wr_connections rt fd2 = Some cn2" "fd2 \<noteq> fd" for fd2 cn2
    using conn_step_other [OF st i(5) [OF that(1)]] that i(4) cn c(1) by (auto simp: ids_distinct_def)
  have env: "env_ok w rt' \<and> recorded k rt' s' \<and> answered w rt' s'"
    using st i(1-3) by (simp add: conn_step_def)
  have streams: "streamed (w_lib w) s' j" for j
    using conn_step_streams [OF st l i(7)] .
  have fr: "fresh (w_lib w) s' j" if "unat (wr_next_connection_id rt) \<le> unat j" for j
    using conn_step_elsewhere [OF st, of j] i(8) [OF that] that c(6) by (cases "j = cn_connection_id cn") auto
  have int: "os_interest s' fd2 = None" if "fd2 \<noteq> fd" "wr_connections rt fd2 = None" for fd2
    using st i(6) [OF that(2)] that(1) c(1) by (simp add: conn_step_def)
  have ids: "ids_distinct ((wr_connections rt)(fd \<mapsto> cn'))" "ids_distinct ((wr_connections rt)(fd := None))"
    using i(4) cn d(8) by (auto simp: ids_distinct_def)
  show "worker_inv k w (put_connection rt' cn' fd) s'" if "synced s' cn'" "idle rt' cn'" "roomy cn'"
  proof -
    have "connection_inv w rt' s' fd cn'" using that l c d by (simp add: connection_inv_def)
    then show ?thesis
      using others env streams fr int ids(1) i(9) d by (auto simp: worker_inv_def put_connection_def)
  qed
  show "\<exists>rt2 s2. close_connection (put_connection rt' cn' fd) s' fd = (rt2, s2) \<and> worker_inv k w rt2 s2"
    using others env streams fr int ids(2) i(9) d c(2)
    by (auto simp: close_connection_def worker_inv_def put_connection_def connection_inv_unregister)
qed


section \<open>Events\<close>

text \<open>The part of an event that follows the send buffer: process, then read.\<close>

definition after_flush ::
  "world \<Rightarrow> WorkerRuntime \<Rightarrow> os \<Rightarrow> ConnectionState \<Rightarrow> int \<Rightarrow> (WorkerRuntime \<times> os) option" where
  "after_flush w rt s cn fd =
    (case process_ready_frames w rt s cn of
       None \<Rightarrow> None
     | Some (PF_CloseConnection, rt, s, cn) \<Rightarrow> Some (close_connection (put_connection rt cn fd) s fd)
     | Some (PF_PauseForWrite, rt, s, cn) \<Rightarrow> Some (put_connection rt cn fd, s)
     | Some (PF_Continue, rt, s, cn) \<Rightarrow>
         (case read_loop w rt s cn (os_reads s) of
            None \<Rightarrow> None
          | Some (should_close, rt, s, cn) \<Rightarrow>
              if should_close then Some (close_connection (put_connection rt cn fd) s fd)
              else Some (put_connection rt cn fd, s)))"

lemma after_flush_inv:
  assumes inv: "worker_inv k w rt s" and cn: "wr_connections rt fd = Some cn"
    and st: "conn_step w rt s cn rt s1 cn1" and l: "live w rt s1 cn1" "synced s1 cn1"
    and np: "\<not> cn_has_pending_write cn1"
    and res: "after_flush w rt s1 cn1 fd = Some (rt', s')"
  shows "worker_inv k w rt' s'"
proof -
  have env: "env_ok w rt" using inv by (rule worker_invD)
  obtain out rt2 s2 cn2 where pr: "process_ready_frames w rt s1 cn1 = Some (out, rt2, s2, cn2)"
    and ok: "process_result w rt s1 cn1 (out, rt2, s2, cn2)"
    using process_ready_frames_spec [OF l(1) np l(2) env] by (metis prod_cases4)
  have st2: "conn_step w rt s cn rt2 s2 cn2" and l2: "live w rt2 s2 cn2"
    using ok conn_step_trans [OF st] by (auto simp: process_result_def)
  note done2 = conn_step_inv [OF inv cn st2 l2]
  show ?thesis
  proof (cases out)
    case PF_Continue
    then have same: "rt2 = rt" "s2 = s1" "cn2 = cn1" "idle rt cn1"
      using ok by (simp_all add: process_result_def)
    with PF_Continue pr res obtain close rt3 s3 cn3 where
      rd: "read_loop w rt s1 cn1 (os_reads s1) = Some (close, rt3, s3, cn3)"
      and res': "Some (rt', s') = (if close then Some (close_connection (put_connection rt3 cn3 fd) s3 fd)
              else Some (put_connection rt3 cn3 fd, s3))"
      by (auto simp: after_flush_def split: option.splits)
    note r = read_loop_spec [OF rd l(1) np l(2) same(4) env]
    then have "conn_step w rt s cn rt3 s3 cn3" "live w rt3 s3 cn3"
      using conn_step_trans [OF st] by blast+
    note done3 = conn_step_inv [OF inv cn this]
    show ?thesis using done3 r res' by (auto split: if_splits)
  qed (use done2 ok pr res in \<open>auto simp: after_flush_def process_result_def idle_def\<close>)
qed

lemma handle_client_event_inv:
  assumes inv: "worker_inv k w rt s" and res: "handle_client_event w rt s ev = Some (rt', s')"
  shows "worker_inv k w rt' s'"
proof (cases "wr_connections rt (ev_fd ev)")
  case None
  then show ?thesis using assms by (simp add: handle_client_event_def)
next
  case (Some cn)
  note c = connection_invD [OF worker_invD(5) [OF inv Some]]
  show ?thesis
  proof (cases "ev_err ev \<or> ev_hup ev \<or> ev_rdhup ev")
    case True
    then have "close_connection rt s (ev_fd ev) = (rt', s')"
      using res Some by (simp add: handle_client_event_def)
    then show ?thesis using close_inv [OF inv, of "ev_fd ev"] by simp
  next
    case False
    define flush where "flush = (if cn_has_pending_write cn \<and> ev_out ev
      then flush_pending_write w rt s cn else Some (True, s, cn))"
    obtain ok s1 cn1 where fl: "flush = Some (ok, s1, cn1)"
      and rest: "Some (rt', s') = (if \<not> ok then Some (close_connection (put_connection rt cn1 (ev_fd ev)) s1 (ev_fd ev))
        else if cn_has_pending_write cn1 then Some (put_connection rt cn1 (ev_fd ev), s1)
        else after_flush w rt s1 cn1 (ev_fd ev))"
      using res Some False
      unfolding handle_client_event_def after_flush_def flush_def Let_def
      by (auto split: option.splits)
    have st: "conn_step w rt s cn rt s1 cn1" and l: "live w rt s1 cn1" and sy: "ok \<Longrightarrow> synced s1 cn1"
      using fl flush_pending_write_spec [of w rt s cn ok s1 cn1] c(3,4)
      by (auto simp: flush_def split: if_splits)
    have room: "roomy cn1"
      using fl flush_pending_write_spec(3) [of w rt s cn ok s1 cn1] c(3,7)
      by (auto simp: flush_def roomy_def split: if_splits)
    note ci = conn_step_inv [OF inv Some st l]
    show ?thesis
      using rest ci sy room after_flush_inv [OF inv Some st l]
      by (auto simp: idle_def split: if_splits)
  qed
qed

text \<open>The accept loop; each accepted descriptor uses up one connection id.\<close>

lemma accepts_irrelevant [simp]:
  "recorded k rt (s\<lparr>os_accepts := a\<rparr>) \<longleftrightarrow> recorded k rt s"
  "answered w rt (s\<lparr>os_accepts := a\<rparr>) \<longleftrightarrow> answered w rt s"
  "streamed lib (s\<lparr>os_accepts := a\<rparr>) i \<longleftrightarrow> streamed lib s i"
  "fresh lib (s\<lparr>os_accepts := a\<rparr>) i \<longleftrightarrow> fresh lib s i"
  "connection_inv w rt (s\<lparr>os_accepts := a\<rparr>) fd cn \<longleftrightarrow> connection_inv w rt s fd cn"
  by (simp_all add: recorded_def answered_def stream_ok_def streamed_def fresh_def requests_of_def
      responses_of_def live_def connection_inv_def synced_def)

lemma id_irrelevant [simp]:
  "env_ok w (rt\<lparr>wr_next_connection_id := i\<rparr>) \<longleftrightarrow> env_ok w rt"
  "recorded k (rt\<lparr>wr_next_connection_id := i\<rparr>) s \<longleftrightarrow> recorded k rt s"
  "answered w (rt\<lparr>wr_next_connection_id := i\<rparr>) s \<longleftrightarrow> answered w rt s"
  "connection_inv w (rt\<lparr>wr_next_connection_id := i\<rparr>) s fd cn \<longleftrightarrow>
    cn_fd cn = fd \<and> live w rt s cn \<and> synced s cn \<and> idle rt cn \<and> roomy cn \<and> unat (cn_connection_id cn) < unat i"
  by (simp_all add: env_ok_def recorded_def answered_def connection_inv_def live_def idle_def)

definition new_connection :: "WorkerRuntime \<Rightarrow> nat \<Rightarrow> ConnectionState" where
  "new_connection rt n = empty_connection
    \<lparr>cn_fd := int n, cn_connection_id := wr_next_connection_id rt,
     cn_read_buffer := reserve empty_buffer (wc_connection_buffer_capacity (wr_config rt)),
     cn_write_buffer := reserve empty_buffer (wc_connection_buffer_capacity (wr_config rt))\<rparr>"

lemma new_connection_inv:
  assumes env: "env_ok w rt" and fr: "fresh (w_lib w) s (wr_next_connection_id rt)"
    and int: "os_interest s (int n) = Some False"
  shows "live w rt s (new_connection rt n)" and "synced s (new_connection rt n)"
    and "idle rt (new_connection rt n)" and "roomy (new_connection rt n)"
proof -
  define c where "c = wc_connection_buffer_capacity (wr_config rt)"
  have c: "unat c < max_vec" using env by (simp add: env_ok_def c_def)
  note r = reserve_wf [OF buffer_wf_empty c]
  have len: "length (storage (reserve empty_buffer c)) = unat c"
    using c by (simp add: reserve_def empty_buffer_def vec_size_def vec_resize_def word_gt_0)
  have p: "pending (reserve empty_buffer c) = []" by (simp add: reserve_pending [OF buffer_wf_empty])
  show "live w rt s (new_connection rt n)"
    using r len p fr
    by (simp add: live_def new_connection_def c_def [symmetric] stream_ok_def fresh_def)
  show "synced s (new_connection rt n)" "idle rt (new_connection rt n)" "roomy (new_connection rt n)"
    using p int by (simp_all add: synced_def idle_def roomy_def new_connection_def c_def [symmetric]
        empty_connection_def decode_frame_def)
qed

lemma accept_one_inv:
  assumes inv: "worker_inv k w rt (s\<lparr>os_accepts := Ac_Fd n # rest\<rparr>)" and nw: "os_interest s (int n) = None"
  defines "nxt \<equiv> wr_next_connection_id rt + 1" and "m \<equiv> wr_connections rt"
  shows "m (int n) = None"
    and "worker_inv k w (rt\<lparr>wr_next_connection_id := nxt, wr_connections := m(int n := None)\<rparr>)
      (s\<lparr>os_ctls := c, os_interest := (os_interest s)(int n := None), os_accepts := rest\<rparr>)"
    and "worker_inv k w (rt\<lparr>wr_next_connection_id := nxt, wr_connections := m(int n \<mapsto> new_connection rt n)\<rparr>)
      (s\<lparr>os_ctls := c, os_interest := (os_interest s)(int n \<mapsto> False), os_accepts := rest\<rparr>)"
proof -
  note i = worker_invD [OF inv]
  let ?i = "wr_next_connection_id rt"
  have nxt: "unat nxt = unat ?i + 1"
    using unat_add_no_wrap [of ?i 1] i(9) by (simp add: nxt_def)
  show none: "m (int n) = None"
    using nw i(5) [of "int n"]
    by (cases "wr_connections rt (int n)") (auto simp: m_def connection_inv_def synced_def)
  define s1 where "s1 = s\<lparr>os_ctls := c, os_interest := (os_interest s)(int n := None)\<rparr>"
  define s2 where "s2 = s\<lparr>os_ctls := c, os_interest := (os_interest s)(int n \<mapsto> False)\<rparr>"
  have old: "connection_inv w rt s1 fd cn" "connection_inv w rt s2 fd cn"
    if "m fd = Some cn" for fd cn
    using i(5) [of fd cn] that none unfolding s1_def s2_def m_def
    by (auto intro!: connection_inv_unregister)
  have big: "unat nxt \<le> unat j \<Longrightarrow> unat ?i \<le> unat j" for j :: u64 using nxt by linarith
  have less: "cn_connection_id cn \<noteq> ?i" if "m fd = Some cn" for fd cn
    using i(5) [of fd cn] that by (auto simp: m_def connection_inv_def)
  have fr: "fresh (w_lib w) s2 ?i" using i(8) [of ?i] by (simp add: s2_def)
  have int: "os_interest s2 (int n) = Some False" by (simp add: s2_def)
  note new = new_connection_inv [OF i(1) fr int]
  have new_id: "cn_fd (new_connection rt n) = int n" "cn_connection_id (new_connection rt n) = ?i"
    by (simp_all add: new_connection_def)
  have ids: "ids_distinct (m(int n := None))" "ids_distinct (m(int n \<mapsto> new_connection rt n))"
    using i(4) less less [THEN not_sym] new_id by (auto simp: ids_distinct_def m_def)
  have cn1: "connection_inv w (rt\<lparr>wr_next_connection_id := nxt, wr_connections := m1\<rparr>) s1 fd cn"
    "connection_inv w (rt\<lparr>wr_next_connection_id := nxt, wr_connections := m1\<rparr>) s2 fd cn"
    if "m fd = Some cn" for m1 fd cn
    using connection_invD [OF old(1) [OF that]] connection_invD [OF old(2) [OF that]] nxt by simp_all
  have cn2: "connection_inv w (rt\<lparr>wr_next_connection_id := nxt, wr_connections := m1\<rparr>) s2 (int n)
    (new_connection rt n)" for m1
    using new new_id nxt by simp
  have common: "unat nxt + length rest < 2 ^ 64" using i(9) nxt by simp
  show "worker_inv k w (rt\<lparr>wr_next_connection_id := nxt, wr_connections := m(int n := None)\<rparr>)
      (s\<lparr>os_ctls := c, os_interest := (os_interest s)(int n := None), os_accepts := rest\<rparr>)"
    using i(1-3,6-8) ids(1) cn1(1) common big none m_def
    unfolding worker_inv_def s1_def by auto
  show "worker_inv k w (rt\<lparr>wr_next_connection_id := nxt, wr_connections := m(int n \<mapsto> new_connection rt n)\<rparr>)
      (s\<lparr>os_ctls := c, os_interest := (os_interest s)(int n \<mapsto> False), os_accepts := rest\<rparr>)"
    using i(1-3,6-8) ids(2) cn1(2) cn2 common big none m_def
    unfolding worker_inv_def s2_def by auto
qed

lemma accept_loop_inv:
  assumes "accept_loop w rt s acs = Some (rt', s')" and "worker_inv k w rt (s\<lparr>os_accepts := acs\<rparr>)"
  shows "worker_inv k w rt' s'"
  using assms
proof (induction acs arbitrary: rt s)
  case (Cons ac rest)
  show ?case
  proof (cases ac)
    case (Ac_Fd n)
    let ?m = "wr_connections rt" and ?nxt = "wr_next_connection_id rt + 1"
    have nw: "os_interest s (int n) = None"
      using Cons.prems(1) Ac_Fd by (auto simp: Let_def split: if_splits)
    have none: "?m (int n) = None"
      using accept_one_inv(1) [OF Cons.prems(2) [unfolded Ac_Fd] nw] .
    note one = accept_one_inv(2,3) [OF Cons.prems(2) [unfolded Ac_Fd] nw, where c = "os_ctls s + 1"]
    show ?thesis
    proof (cases "w_ctl_ok w (os_ctls s)")
      case True
      then have "accept_loop w
          (rt\<lparr>wr_next_connection_id := ?nxt, wr_connections := ?m(int n \<mapsto> new_connection rt n)\<rparr>)
          (s\<lparr>os_ctls := os_ctls s + 1, os_interest := (os_interest s)(int n \<mapsto> False)\<rparr>) rest = Some (rt', s')"
        using Cons.prems(1) Ac_Fd nw none by (simp add: Let_def new_connection_def)
      from Cons.IH [OF this one(2)] show ?thesis .
    next
      case False
      then have "accept_loop w
          (rt\<lparr>wr_next_connection_id := ?nxt, wr_connections := ?m(int n := None)\<rparr>)
          (s\<lparr>os_ctls := os_ctls s + 1, os_interest := (os_interest s)(int n := None)\<rparr>) rest = Some (rt', s')"
        using Cons.prems(1) Ac_Fd nw none by (simp add: Let_def)
      from Cons.IH [OF this one(1)] show ?thesis .
    qed
  qed (use Cons.prems in \<open>auto simp: worker_inv_def\<close>)
qed simp

lemma process_events_inv:
  assumes "process_events w rt s evs = Some (stop, rt', s')" and "worker_inv k w rt s"
  shows "worker_inv k w rt' s'"
  using assms
proof (induction evs arbitrary: rt s)
  case (Cons ev evs)
  show ?case
  proof (cases "ev_fd ev = wc_shutdown_fd (wr_config rt)")
    case True
    then show ?thesis using Cons.prems by simp
  next
    case False
    then obtain rt1 s1 where step: "(if ev_fd ev = wr_listen_fd rt then accept_loop w rt s (os_accepts s)
        else handle_client_event w rt s ev) = Some (rt1, s1)"
      and rest: "process_events w rt1 s1 evs = Some (stop, rt', s')"
      using Cons.prems(1) by (auto split: option.splits)
    have "worker_inv k w rt1 s1"
      using step accept_loop_inv [of w rt s "os_accepts s" rt1 s1] Cons.prems(2)
        handle_client_event_inv [of k w rt s ev rt1 s1] by (auto split: if_splits)
    with rest show ?thesis by (rule Cons.IH)
  qed
qed simp

lemma run_worker_loop_inv:
  assumes "run_worker_loop w rt s batches = Some (code, rt', s')" and "worker_inv k w rt s"
  shows "code = 0" and "worker_inv k w rt' s'"
proof -
  have "code = 0 \<and> worker_inv k w rt' s'"
    using assms
  proof (induction batches arbitrary: rt s)
    case (Cons batch rest)
    then show ?case
      using process_events_inv [of w rt s]
      by (cases batch) (fastforce split: option.splits bool.splits)+
  qed simp
  then show "code = 0" "worker_inv k w rt' s'" by simp_all
qed


section \<open>Start and shutdown\<close>

text \<open>Nothing has happened yet.\<close>

definition untouched :: "os \<Rightarrow> bool" where
  "untouched s \<longleftrightarrow>
    os_interest s = Map.empty \<and> os_recv s = (\<lambda>_. []) \<and> os_sent s = (\<lambda>_. []) \<and> os_log s = [] \<and>
    os_arrivals s = [] \<and> length (os_accepts s) < 2 ^ 64 - 1"

text \<open>
  The descriptors a worker owns; after a failed start it owns none and has closed what it
  had opened.
\<close>

definition owned :: "WorkerRuntime \<Rightarrow> int set" where
  "owned rt = {fd \<in> cn_fd ` ran (wr_connections rt) \<union> {wr_listen_fd rt, wr_epoll_fd rt}. 0 \<le> fd}"

lemma shutdown_closes:
  "snd (shutdown_worker_runtime rt) = owned rt" "owned (fst (shutdown_worker_runtime rt)) = {}"
  by (auto simp: shutdown_worker_runtime_def owned_def)

text \<open>What the calls of a start open, in the order the code makes them.\<close>

definition opened :: "startup \<Rightarrow> int set" where
  "opened su =
    (if su_socket su = -1 then {}
     else if su_reuse_addr su \<and> su_reuse_port su \<and> su_bind su \<and> su_listen su \<and> su_epoll su \<noteq> -1
     then {su_socket su, su_epoll su} else {su_socket su})"

lemma shutdown_owned:
  "shutdown_worker_runtime rt = (rt', gone) \<Longrightarrow> owned rt' = {} \<and> gone = owned rt"
  using shutdown_closes [of rt] by simp

lemma initialize_closes:
  assumes init: "initialize_worker_runtime files su rt = (ok, rt', gone)"
    and bare: "wr_connections rt = Map.empty" "wr_listen_fd rt = -1" "wr_epoll_fd rt = -1"
    and "-1 \<le> su_socket su" "-1 \<le> su_epoll su" and store: "wr_campaign_store rt \<noteq> None"
  shows "ok \<Longrightarrow> owned rt' = opened su \<and> gone = {}"
    and "\<not> ok \<Longrightarrow> owned rt' = {} \<and> gone = opened su"
proof -
  obtain st where st: "wr_campaign_store rt = Some st" using store by blast
  note d = init [unfolded initialize_worker_runtime_def st option.case Let_def]
  show "ok \<Longrightarrow> owned rt' = opened su \<and> gone = {}"
    using d bare st assms(5,6) by (auto simp: owned_def opened_def split: if_splits)
  assume "\<not> ok"
  show "owned rt' = {} \<and> gone = opened su"
  proof (cases "su_socket su = -1")
    case True
    then have "wr_connections rt' = wr_connections rt \<and> wr_listen_fd rt' = -1 \<and>
        wr_epoll_fd rt' = wr_epoll_fd rt \<and> gone = {}"
      using d st \<open>\<not> ok\<close> by auto
    with bare True show ?thesis by (simp add: opened_def owned_def)
  next
    case False
    then show ?thesis
      using d bare st assms(5,6) \<open>\<not> ok\<close>
      by (auto dest!: shutdown_owned simp: opened_def split: if_splits) (auto simp: owned_def)
  qed
qed

lemma initialize_success:
  assumes "initialize_worker_runtime files su rt = (True, rt', gone)"
  shows "wr_config rt' = wr_config rt" "rng_wf (wr_rng rt')" "wr_connections rt' = Map.empty"
    "wr_next_connection_id rt' = 1" "wr_benchmark_recorder rt' = wr_benchmark_recorder rt"
    "wr_campaign_store rt' = (case wr_campaign_store rt of
       None \<Rightarrow> load_campaign_store_snapshot files (wc_campaign_data_path (wr_config rt)) | Some st \<Rightarrow> Some st)"
    "wr_campaign_store rt' \<noteq> None" "wr_listen_fd rt' = su_socket su" "wr_epoll_fd rt' = su_epoll su"
    "su_socket su \<noteq> -1" "su_epoll su \<noteq> -1" "gone = {}"
  using assms
  by (auto simp: initialize_worker_runtime_def Let_def seed_wf split: if_splits option.splits)

lemma initial_inv:
  assumes init: "initialize_worker_runtime files su rt = (True, rt', gone)"
    and s: "untouched s" and lib: "serializes (w_lib w)"
    and cfg: "unat (wc_connection_buffer_capacity (wr_config rt)) < max_vec"
      "unat (wc_max_frame_size (wr_config rt)) \<le> 2 ^ 32 - 5"
    and store: "\<And>st. wr_campaign_store rt' = Some st \<Longrightarrow> store_wf st"
    and rec: "\<And>r. wr_benchmark_recorder rt = Some r \<Longrightarrow> length (br_requests r) = k"
  shows "worker_inv k w rt' s"
  using initialize_success [OF init] assms
  by (auto simp: worker_inv_def env_ok_def recorded_def answered_def ids_distinct_def untouched_def
      streamed_def stream_ok_def fresh_def requests_of_def responses_of_def)

section \<open>The reader of the stream\<close>

text \<open>
  The loop fills the buffer and takes frames out of it, which is the interface of
  \<open>frame_reader\<close>: what the client sends is cut into frames in the same way however it arrives.
\<close>

definition put_bytes :: "ReusableBuffer \<Rightarrow> u8 list \<Rightarrow> ReusableBuffer" where
  "put_bytes b bs = receive (make_room b) bs"

definition has_room :: "ReusableBuffer \<Rightarrow> u8 list \<Rightarrow> bool" where
  "has_room b bs \<longleftrightarrow> length bs \<le> unat (snd (writable_region (make_room b)))"

definition read_buffer_inv :: "u64 \<Rightarrow> ReusableBuffer \<Rightarrow> bool" where
  "read_buffer_inv capacity b \<longleftrightarrow> buffer_wf b \<and> length (storage b) = unat capacity"

text \<open>The buffer of the default configuration, as the accept loop makes it.\<close>

definition default_capacity :: u64 where "default_capacity = 16 * 1024"
definition default_max_frame :: u32 where "default_max_frame = 64 * 1024"

lemma next_frame_storage: "next_frame mx b = Some (p, b') \<Longrightarrow> storage b' = storage b"
  by (auto simp: next_frame_def consume_frame_storage split: prod.splits FrameStatus.splits)

interpretation reader: frame_reader put_bytes has_room "next_frame default_max_frame"
  "read_buffer_inv default_capacity" pending "64 * 1024" "16 * 1024"
proof unfold_locales
  fix b :: ReusableBuffer and bs :: "u8 list"
  assume b: "read_buffer_inv default_capacity b"
  note m = make_room_spec [of b]
  show "length (pending b) \<le> 16 * 1024"
    using b by (auto simp: read_buffer_inv_def default_capacity_def pending_def buffer_wf_def)
  show "read_buffer_inv default_capacity (put_bytes b bs)" "pending (put_bytes b bs) = pending b @ bs"
    if "has_room b bs"
    using b m that receive_spec [of "make_room b" bs]
    by (simp_all add: read_buffer_inv_def put_bytes_def has_room_def)
next
  fix b p rest
  assume b: "read_buffer_inv default_capacity b"
  have mx: "unat default_max_frame = 64 * 1024" by (simp add: default_max_frame_def)
  have wf: "buffer_wf b" using b by (simp add: read_buffer_inv_def)
  note nf = next_frame_spec [OF wf, of default_max_frame, unfolded mx]
  show "\<exists>b'. next_frame default_max_frame b = Some (p, b') \<and> read_buffer_inv default_capacity b' \<and> pending b' = rest"
    if c: "decode_frame (64 * 1024) (pending b) = Complete p rest"
    using nf(1) [OF _ c] next_frame_storage b by (fastforce simp: read_buffer_inv_def)
  show "next_frame default_max_frame b = None" if "\<not> is_Complete (decode_frame (64 * 1024) (pending b))"
    using nf(2) that by simp
qed

section \<open>A worker from its start\<close>

text \<open>
  What a run rests on: the worker was started, nothing has happened on its descriptors, the
  library serializes as documented, the sizes are within what a vector and a 32-bit length
  allow, and the campaigns fit the indices of the store.
\<close>

definition worker_setup ::
  "(string \<Rightarrow> string option) \<Rightarrow> startup \<Rightarrow> WorkerConfig \<Rightarrow> world \<Rightarrow> os \<Rightarrow> WorkerRuntime \<Rightarrow> bool" where
  "worker_setup files su config w s rt \<longleftrightarrow>
    initialize_worker_runtime files su (empty_runtime config) = (True, rt, {}) \<and>
    untouched s \<and> serializes (w_lib w) \<and>
    unat (wc_connection_buffer_capacity config) < max_vec \<and>
    unat (wc_max_frame_size config) \<le> 2 ^ 32 - 5 \<and>
    (\<forall>store. load_campaign_store_snapshot files (wc_campaign_data_path config) = Some store \<longrightarrow>
      store_fits store)"

lemma worker_setup_inv:
  assumes "worker_setup files su config w s rt"
  shows "worker_inv 0 w rt s"
proof -
  have init: "initialize_worker_runtime files su (empty_runtime config) = (True, rt, {})"
    using assms by (simp add: worker_setup_def)
  show ?thesis
  proof (rule initial_inv [OF init])
    show "store_wf st" if "wr_campaign_store rt = Some st" for st
      using initialize_success(6) [OF init] that assms load_store_wf
      by (simp add: worker_setup_def empty_runtime_def)
  qed (use assms in \<open>auto simp: worker_setup_def empty_runtime_def\<close>)
qed

section \<open>What a run never changes\<close>

definition same_setup :: "WorkerRuntime \<Rightarrow> WorkerRuntime \<Rightarrow> bool" where
  "same_setup rt rt' \<longleftrightarrow>
    wr_config rt' = wr_config rt \<and> wr_campaign_store rt' = wr_campaign_store rt \<and>
    wr_listen_fd rt' = wr_listen_fd rt \<and> wr_epoll_fd rt' = wr_epoll_fd rt \<and>
    map_option br_request_limit (wr_benchmark_recorder rt') =
      map_option br_request_limit (wr_benchmark_recorder rt)"

lemma same_setup_refl [simp]: "same_setup rt rt"
  by (simp add: same_setup_def)

lemma same_setup_trans: "same_setup rt rt1 \<Longrightarrow> same_setup rt1 rt2 \<Longrightarrow> same_setup rt rt2"
  by (simp add: same_setup_def)

lemma same_setup_updates [simp]:
  "same_setup rt (put_connection rt' cn fd) \<longleftrightarrow> same_setup rt rt'"
  "same_setup rt (fst (close_connection rt' s fd)) \<longleftrightarrow> same_setup rt rt'"
  "same_setup rt (rt'\<lparr>wr_connections := m\<rparr>) \<longleftrightarrow> same_setup rt rt'"
  "same_setup rt (rt'\<lparr>wr_next_connection_id := i\<rparr>) \<longleftrightarrow> same_setup rt rt'"
  "same_setup (rt\<lparr>wr_connections := m\<rparr>) rt' \<longleftrightarrow> same_setup rt rt'"
  "same_setup (rt\<lparr>wr_next_connection_id := i\<rparr>) rt' \<longleftrightarrow> same_setup rt rt'"
  by (simp_all add: same_setup_def put_connection_def close_connection_def)

lemma process_ready_frames_setup:
  "process_ready_frames w rt s cn = Some (out, rt', s', cn') \<Longrightarrow> same_setup rt rt'"
  by (auto simp: process_ready_frames_def same_setup_def Let_def update_client_events_def
      record_request_def option.map_comp o_def
      split: prod.splits option.splits if_splits FrameStatus.splits)

lemma read_loop_setup:
  "read_loop w rt s cn reads = Some (close, rt', s', cn') \<Longrightarrow> same_setup rt rt'"
proof (induction reads arbitrary: rt s cn)
  case Nil
  then show ?case by (auto simp: read_loop.simps Let_def split: if_splits)
next
  case (Cons res rest)
  then show ?case
    by (auto simp: read_loop.simps [of _ _ _ _ "_ # _"] Let_def
        split: if_splits sys_read.splits option.splits ProcessFramesOutcome.splits
        dest: process_ready_frames_setup intro: same_setup_trans)
qed

lemma handle_client_event_setup:
  assumes "handle_client_event w rt s ev = Some (rt', s')"
  shows "same_setup rt rt'"
proof -
  have close: "close_connection rt1 s1 fd = (rt', s') \<Longrightarrow> same_setup rt rt1 \<Longrightarrow> same_setup rt rt'" for rt1 s1 fd
    using same_setup_updates(2) [of rt rt1 s1 fd] by simp
  show ?thesis
    using assms
    by (auto simp: handle_client_event_def Let_def
        split: option.splits if_splits prod.splits ProcessFramesOutcome.splits
        dest!: process_ready_frames_setup read_loop_setup close intro: same_setup_trans)
qed

lemma accept_loop_setup: "accept_loop w rt s acs = Some (rt', s') \<Longrightarrow> same_setup rt rt'"
proof (induction acs arbitrary: rt s)
  case (Cons ac acs)
  from Cons.prems show ?case
    by (cases ac) (auto simp: Let_def split: if_splits dest!: Cons.IH)
qed simp

lemma process_events_setup: "process_events w rt s evs = Some (stop, rt', s') \<Longrightarrow> same_setup rt rt'"
  by (induction evs arbitrary: rt s)
     (auto split: if_splits option.splits dest: accept_loop_setup handle_client_event_setup
       intro: same_setup_trans)

lemma run_worker_loop_setup: "run_worker_loop w rt s batches = Some (code, rt', s') \<Longrightarrow> same_setup rt rt'"
proof (induction batches arbitrary: rt s)
  case (Cons batch rest)
  then show ?case
    by (cases batch) (auto split: option.splits bool.splits dest: process_events_setup intro: same_setup_trans)
qed simp

end
