(* ===== verification/Rtb_Time.thy ===== *)
theory Rtb_Time
  imports Rtb_Text
begin

text \<open>
  The time stamp of a benchmark report: \<open>timestamp_now_utc\<close> of \<open>src/benchmark.cc\<close>, with the
  calendar of \<open>gmtime_r\<close> and the format of \<open>std::put_time\<close>. The argument is the \<open>time_t\<close> of the
  system clock, in seconds since 1970. The lemmas show that a stamp reads back as its time.
\<close>

section \<open>The calendar\<close>

definition is_leap :: "nat \<Rightarrow> bool" where
  "is_leap y \<longleftrightarrow> y mod 4 = 0 \<and> (y mod 100 \<noteq> 0 \<or> y mod 400 = 0)"

definition days_in_year :: "nat \<Rightarrow> nat" where
  "days_in_year y = (if is_leap y then 366 else 365)"

definition days_in_month :: "nat \<Rightarrow> nat \<Rightarrow> nat" where
  "days_in_month y m =
    (if m = 2 then if is_leap y then 29 else 28 else if m = 4 \<or> m = 6 \<or> m = 9 \<or> m = 11 then 30 else 31)"

lemma days_positive [simp]: "0 < days_in_year y" "0 < days_in_month y m"
  by (simp_all add: days_in_year_def days_in_month_def)

text \<open>The year of a day counted from the first of January of \<open>y\<close>, and the day within it.\<close>

function year_of :: "nat \<Rightarrow> nat \<Rightarrow> nat \<times> nat" where
  "year_of d y = (if d < days_in_year y then (y, d) else year_of (d - days_in_year y) (y + 1))"
  by pat_completeness auto
termination
proof (relation "measure fst")
  show "\<not> d < days_in_year y \<Longrightarrow> ((d - days_in_year y, y + 1), d, y) \<in> measure fst" for d y
    using days_positive(1) [of y] by (simp del: days_positive)
qed simp

declare year_of.simps [simp del]

function month_of :: "nat \<Rightarrow> nat \<Rightarrow> nat \<Rightarrow> nat \<times> nat" where
  "month_of d y m = (if d < days_in_month y m then (m, d) else month_of (d - days_in_month y m) y (m + 1))"
  by pat_completeness auto
termination
proof (relation "measure fst")
  show "\<not> d < days_in_month y m \<Longrightarrow> ((d - days_in_month y m, y, m + 1), d, y, m) \<in> measure fst" for d y m
    using days_positive(2) [of y m] by (simp del: days_positive)
qed simp

declare month_of.simps [simp del]

text \<open>\<open>struct tm\<close>: the year counts from 1900, the month from zero.\<close>

record tm =
  tm_year :: nat
  tm_mon :: nat
  tm_mday :: nat
  tm_hour :: nat
  tm_min :: nat
  tm_sec :: nat

definition gmtime :: "nat \<Rightarrow> tm" where
  "gmtime now_time =
    (let (year, yday) = year_of (now_time div 86400) 1970;
         (month, day) = month_of yday year 1;
         s = now_time mod 86400
     in \<lparr>tm_year = year - 1900, tm_mon = month - 1, tm_mday = day + 1,
         tm_hour = s div 3600, tm_min = s mod 3600 div 60, tm_sec = s mod 60\<rparr>)"

section \<open>The code\<close>

definition put_two :: "nat \<Rightarrow> string" where
  "put_two n = [digit_char (n div 10), digit_char (n mod 10)]"

definition timestamp_now_utc :: "nat \<Rightarrow> string" where
  "timestamp_now_utc now_time =
    (let tm_utc = gmtime now_time in
     nat_to_string (tm_year tm_utc + 1900) @ ''-'' @ put_two (tm_mon tm_utc + 1) @ ''-'' @
     put_two (tm_mday tm_utc) @ ''T'' @ put_two (tm_hour tm_utc) @ '':'' @ put_two (tm_min tm_utc) @
     '':'' @ put_two (tm_sec tm_utc) @ ''Z'')"

section \<open>Reading a time stamp\<close>

definition days_from :: "nat \<Rightarrow> nat \<Rightarrow> nat \<Rightarrow> nat" where
  "days_from y m d = (\<Sum>i \<leftarrow> [1970..<y]. days_in_year i) + (\<Sum>i \<leftarrow> [1..<m]. days_in_month y i) + (d - 1)"

definition timestamp_seconds :: "string \<Rightarrow> nat" where
  "timestamp_seconds s =
    (let k = length s - 16; num = (\<lambda>i. digits_value (take 2 (drop (k + i) s))) in
     days_from (digits_value (take k s)) (num 1) (num 4) * 86400 + num 7 * 3600 + num 10 * 60 + num 13)"

section \<open>Lemmas\<close>

lemma year_of_spec:
  assumes "1970 \<le> y" "year_of d y = (y', d')"
  shows "d' < days_in_year y'" and "y \<le> y'"
    and "(\<Sum>i \<leftarrow> [1970..<y]. days_in_year i) + d = (\<Sum>i \<leftarrow> [1970..<y']. days_in_year i) + d'"
proof -
  have "d' < days_in_year y' \<and> y \<le> y' \<and>
      (\<Sum>i \<leftarrow> [1970..<y]. days_in_year i) + d = (\<Sum>i \<leftarrow> [1970..<y']. days_in_year i) + d'"
    using assms
  proof (induction d y rule: year_of.induct)
    case (1 d y)
    show ?case
    proof (cases "d < days_in_year y")
      case True
      then show ?thesis using 1(3) by (simp add: year_of.simps [of d])
    next
      case False
      then have "year_of (d - days_in_year y) (y + 1) = (y', d')" using 1(3) by (simp add: year_of.simps [of d])
      from 1(1) [OF False _ this] 1(2) False show ?thesis by (simp add: upt_Suc_append)
    qed
  qed
  then show "d' < days_in_year y'" "y \<le> y'"
    "(\<Sum>i \<leftarrow> [1970..<y]. days_in_year i) + d = (\<Sum>i \<leftarrow> [1970..<y']. days_in_year i) + d'" by simp_all
qed

lemma month_of_spec:
  assumes "d < (\<Sum>i \<leftarrow> [m..<13]. days_in_month y i)" "1 \<le> m" "month_of d y m = (m', d')"
  shows "d' < days_in_month y m' \<and> 1 \<le> m' \<and> m' \<le> 12 \<and>
    (\<Sum>i \<leftarrow> [1..<m]. days_in_month y i) + d = (\<Sum>i \<leftarrow> [1..<m']. days_in_month y i) + d'"
  using assms
proof (induction d y m rule: month_of.induct)
  case (1 d y m)
  have m: "m < 13" using 1(2) by (cases "m < 13") simp_all
  show ?case
  proof (cases "d < days_in_month y m")
    case True
    then show ?thesis using 1(3,4) m by (simp add: month_of.simps [of d])
  next
    case False
    then have "month_of (d - days_in_month y m) y (m + 1) = (m', d')" using 1(4) by (simp add: month_of.simps [of d])
    moreover have "d - days_in_month y m < (\<Sum>i \<leftarrow> [m + 1..<13]. days_in_month y i)"
      using 1(2) False m by (simp add: upt_conv_Cons)
    ultimately show ?thesis using 1(1) [OF False] 1(3) False by (simp add: upt_Suc_append)
  qed
qed

lemma year_by_months: "(\<Sum>i \<leftarrow> [1..<13]. days_in_month y i) = days_in_year y"
  by (simp add: upt_rec days_in_month_def days_in_year_def)

lemma gmtime_days:
  assumes "gmtime t = tm"
  shows "days_from (tm_year tm + 1900) (tm_mon tm + 1) (tm_mday tm) = t div 86400"
    and "tm_mon tm < 12" and "tm_mday tm \<le> 31"
proof -
  obtain y d where yd: "year_of (t div 86400) 1970 = (y, d)" by (metis prod.exhaust)
  obtain m e where me: "month_of d y 1 = (m, e)" by (metis prod.exhaust)
  note ys = year_of_spec [OF order_refl yd]
  have ms: "e < days_in_month y m \<and> 1 \<le> m \<and> m \<le> 12 \<and>
      (\<Sum>i \<leftarrow> [1..<1]. days_in_month y i) + d = (\<Sum>i \<leftarrow> [1..<m]. days_in_month y i) + e"
    using month_of_spec [OF _ order_refl me] ys(1) unfolding year_by_months by blast
  have tm: "tm_year tm + 1900 = y" "tm_mon tm + 1 = m" "tm_mday tm = e + 1"
    using assms yd me ys(2) ms by (auto simp: gmtime_def Let_def)
  show "days_from (tm_year tm + 1900) (tm_mon tm + 1) (tm_mday tm) = t div 86400"
    unfolding tm using ys(3) ms by (simp add: days_from_def)
  have "days_in_month y m \<le> 31" by (simp add: days_in_month_def)
  then show "tm_mon tm < 12" "tm_mday tm \<le> 31" using tm ms by simp_all
qed

lemma gmtime_clock:
  "tm_hour (gmtime t) = t mod 86400 div 3600" "tm_min (gmtime t) = t mod 86400 mod 3600 div 60"
  "tm_sec (gmtime t) = t mod 86400 mod 60"
  by (auto simp: gmtime_def Let_def split: prod.splits)

lemma gmtime_bounds:
  "tm_mon (gmtime t) < 12" "tm_mday (gmtime t) \<le> 31"
  "tm_hour (gmtime t) < 24" "tm_min (gmtime t) < 60" "tm_sec (gmtime t) < 60"
  using gmtime_days(2,3) [OF refl, of t] less_mult_imp_div_less [of "t mod 86400" 24 3600]
    less_mult_imp_div_less [of "t mod 86400 mod 3600" 60 60] by (simp_all add: gmtime_clock)

lemma put_two_value: "n < 100 \<Longrightarrow> digits_value (put_two n) = n"
  by (simp add: put_two_def digits_value_def digit_char_props)

lemma three_parts:
  fixes t :: nat
  shows "q * 86400 + u = t \<Longrightarrow> h * 3600 + v = u \<Longrightarrow> m * 60 + w = v \<Longrightarrow> q * 86400 + h * 3600 + m * 60 + w = t"
  by simp

lemma timestamp_reads_back: "timestamp_seconds (timestamp_now_utc t) = t"
proof -
  define tm where "tm = gmtime t"
  have two: "digits_value (put_two (tm_mon tm + 1)) = tm_mon tm + 1" "digits_value (put_two (tm_mday tm)) = tm_mday tm"
    "digits_value (put_two (tm_hour tm)) = tm_hour tm" "digits_value (put_two (tm_min tm)) = tm_min tm"
    "digits_value (put_two (tm_sec tm)) = tm_sec tm"
    using gmtime_bounds [of t] by (simp_all add: put_two_value tm_def)
  have len: "length (put_two n) = 2" for n by (simp add: put_two_def)
  have "timestamp_seconds (timestamp_now_utc t) =
      days_from (tm_year tm + 1900) (tm_mon tm + 1) (tm_mday tm) * 86400 + tm_hour tm * 3600 + tm_min tm * 60 + tm_sec tm"
    using two by (simp add: timestamp_seconds_def timestamp_now_utc_def tm_def [symmetric] Let_def len digits_value_nat_to_string)
  also have "\<dots> = t"
    unfolding tm_def gmtime_days(1) [OF refl] gmtime_clock
    by (rule three_parts [OF div_mult_mod_eq div_mult_mod_eq]) (use div_mult_mod_eq [of "t mod 86400 mod 3600" 60]
      in \<open>simp add: mod_mod_cancel\<close>)
  finally show ?thesis .
qed

end
