(* ===== verification/Rtb_Report.thy ===== *)
theory Rtb_Report
  imports Rtb_Benchmark Rtb_Time
begin

text \<open>
  The output of the benchmark: \<open>phase_json\<close>, \<open>print_summary\<close> and \<open>write_json\<close> of
  \<open>src/benchmark.cc\<close>. A stream is the text written to it. The reference is a JSON value with
  a renderer that indents by two spaces; the lemmas show that the file is the rendering of the
  report's value when strings are copied as they are, and when that is also the rendering
  with escapes.
\<close>

section \<open>The code\<close>

record BenchmarkMetadata =
  bm_timestamp_utc :: string
  bm_port :: u16
  bm_workers :: int
  bm_request_limit :: u64
  bm_duration_ms :: u64
  bm_completed_requests :: u64
  bm_campaign_data_path :: string

text \<open>Insertion into a stream: numbers, quoted text, and a double with two fixed digits.\<close>

definition nl :: string where "nl = [CHR 0x0A]"
definition quoted :: "string \<Rightarrow> string" where "quoted s = CHR 0x22 # s @ [CHR 0x22]"

definition put_int :: "int \<Rightarrow> string" where
  "put_int i = (if i < 0 then ''-'' @ nat_to_string (nat (- i)) else nat_to_string (nat i))"

definition put_fixed2 :: "f64 \<Rightarrow> string" where
  "put_fixed2 x =
    (let n = nat (round_even (\<bar>x\<bar> * 100)) in
     (if x < 0 then ''-'' else '''') @ nat_to_string (n div 100) @ ''.'' @
       [digit_char (n mod 100 div 10), digit_char (n mod 10)])"

definition phase_json :: "string \<Rightarrow> BenchmarkPhaseSummary \<Rightarrow> string" where
  "phase_json name phase =
    ''    '' @ quoted name @ '': {'' @ nl @
    ''      '' @ quoted ''count'' @ '': '' @ to_string (ps_count phase) @ '','' @ nl @
    ''      '' @ quoted ''min_ns'' @ '': '' @ to_string (ps_min_ns phase) @ '','' @ nl @
    ''      '' @ quoted ''max_ns'' @ '': '' @ to_string (ps_max_ns phase) @ '','' @ nl @
    ''      '' @ quoted ''avg_ns'' @ '': '' @ put_fixed2 (ps_avg_ns phase) @ '','' @ nl @
    ''      '' @ quoted ''p50_ns'' @ '': '' @ to_string (ps_p50_ns phase) @ '','' @ nl @
    ''      '' @ quoted ''p95_ns'' @ '': '' @ to_string (ps_p95_ns phase) @ '','' @ nl @
    ''      '' @ quoted ''p99_ns'' @ '': '' @ to_string (ps_p99_ns phase) @ nl @
    ''    }''"

definition print_phase :: "string \<Rightarrow> BenchmarkPhaseSummary \<Rightarrow> string" where
  "print_phase name phase =
    ''  '' @ name @ '': avg='' @ put_fixed2 (ps_avg_ns phase) @
    ''ns p50='' @ to_string (ps_p50_ns phase) @ ''ns p95='' @ to_string (ps_p95_ns phase) @
    ''ns p99='' @ to_string (ps_p99_ns phase) @ ''ns max='' @ to_string (ps_max_ns phase) @ ''ns'' @ nl"

text \<open>The text inserted into the stream; \<open>None\<close> where computing the summary is undefined.\<close>

definition print_summary :: "nat \<Rightarrow> BenchmarkRecorder \<Rightarrow> string option" where
  "print_summary ldp r =
    (case summarize ldp r of
       None \<Rightarrow> None
     | Some summary \<Rightarrow> Some
         (''Engine internal benchmark summary'' @ nl @
          ''requests='' @ to_string (bs_request_count summary) @ nl @
          print_phase ''parse'' (bs_parse summary) @
          print_phase ''normalize_validate'' (bs_normalize_validate summary) @
          print_phase ''retrieve'' (bs_retrieve summary) @
          print_phase ''decide'' (bs_decide summary) @
          print_phase ''response_build'' (bs_response_build summary) @
          print_phase ''response_stage'' (bs_response_stage summary) @
          print_phase ''total_internal'' (bs_total_internal summary)))"

text \<open>
  Whether the file can be opened and the time of the system clock are arguments. The result: the returned value, and the file with its contents when one was written.
\<close>

definition write_json ::
  "nat \<Rightarrow> bool \<Rightarrow> nat \<Rightarrow> BenchmarkRecorder \<Rightarrow> string \<Rightarrow> BenchmarkMetadata \<Rightarrow>
    (bool \<times> (string \<times> string) option) option" where
  "write_json ldp is_open now_time r path metadata =
    (if \<not> is_open then Some (False, None)
     else
       case summarize ldp r of
         None \<Rightarrow> None
       | Some summary \<Rightarrow>
         let timestamp_utc = (if bm_timestamp_utc metadata = '''' then timestamp_now_utc now_time else bm_timestamp_utc metadata) in
         Some (True, Some (path,
           ''{'' @ nl @
           ''  '' @ quoted ''metadata'' @ '': {'' @ nl @
           ''    '' @ quoted ''timestamp_utc'' @ '': '' @ quoted timestamp_utc @ '','' @ nl @
           ''    '' @ quoted ''port'' @ '': '' @ nat_to_string (unat (bm_port metadata)) @ '','' @ nl @
           ''    '' @ quoted ''workers'' @ '': '' @ put_int (bm_workers metadata) @ '','' @ nl @
           ''    '' @ quoted ''request_limit'' @ '': '' @ to_string (bm_request_limit metadata) @ '','' @ nl @
           ''    '' @ quoted ''duration_ms'' @ '': '' @ to_string (bm_duration_ms metadata) @ '','' @ nl @
           ''    '' @ quoted ''completed_requests'' @ '': '' @ to_string (bs_request_count summary) @ '','' @ nl @
           ''    '' @ quoted ''campaign_data_path'' @ '': '' @ quoted (bm_campaign_data_path metadata) @ nl @
           ''  },'' @ nl @
           ''  '' @ quoted ''phases'' @ '': {'' @ nl @
           phase_json ''parse'' (bs_parse summary) @ '','' @ nl @
           phase_json ''normalize_validate'' (bs_normalize_validate summary) @ '','' @ nl @
           phase_json ''retrieve'' (bs_retrieve summary) @ '','' @ nl @
           phase_json ''decide'' (bs_decide summary) @ '','' @ nl @
           phase_json ''response_build'' (bs_response_build summary) @ '','' @ nl @
           phase_json ''response_stage'' (bs_response_stage summary) @ '','' @ nl @
           phase_json ''total_internal'' (bs_total_internal summary) @ nl @
           ''  }'' @ nl @
           ''}'' @ nl)))"

section \<open>JSON values\<close>

datatype json = J_Num string | J_Str string | J_Obj "(string \<times> json) list"

text \<open>
  Rendering with indentation; \<open>esc\<close> writes a character of a string value, names of members
  are written as they are.
\<close>

fun render :: "(char \<Rightarrow> string) \<Rightarrow> string \<Rightarrow> json \<Rightarrow> string"
  and render_members :: "(char \<Rightarrow> string) \<Rightarrow> string \<Rightarrow> (string \<times> json) list \<Rightarrow> string" where
  "render esc ind (J_Num s) = s"
| "render esc ind (J_Str s) = quoted (concat (map esc s))"
| "render esc ind (J_Obj kvs) = ''{'' @ nl @ render_members esc (ind @ ''  '') kvs @ nl @ ind @ ''}''"
| "render_members esc ind [] = ''''"
| "render_members esc ind ((k, v) # kvs) = ind @ quoted k @ '': '' @ render esc ind v @
    (if kvs = [] then '''' else '','' @ nl @ render_members esc ind kvs)"

definition phase_value :: "BenchmarkPhaseSummary \<Rightarrow> json" where
  "phase_value phase = J_Obj
    [(''count'', J_Num (to_string (ps_count phase))), (''min_ns'', J_Num (to_string (ps_min_ns phase))),
     (''max_ns'', J_Num (to_string (ps_max_ns phase))), (''avg_ns'', J_Num (put_fixed2 (ps_avg_ns phase))),
     (''p50_ns'', J_Num (to_string (ps_p50_ns phase))), (''p95_ns'', J_Num (to_string (ps_p95_ns phase))),
     (''p99_ns'', J_Num (to_string (ps_p99_ns phase)))]"

definition report_value :: "string \<Rightarrow> BenchmarkMetadata \<Rightarrow> BenchmarkSummary \<Rightarrow> json" where
  "report_value timestamp metadata summary = J_Obj
    [(''metadata'', J_Obj
       [(''timestamp_utc'', J_Str timestamp),
        (''port'', J_Num (nat_to_string (unat (bm_port metadata)))),
        (''workers'', J_Num (put_int (bm_workers metadata))),
        (''request_limit'', J_Num (to_string (bm_request_limit metadata))),
        (''duration_ms'', J_Num (to_string (bm_duration_ms metadata))),
        (''completed_requests'', J_Num (to_string (bs_request_count summary))),
        (''campaign_data_path'', J_Str (bm_campaign_data_path metadata))]),
     (''phases'', J_Obj
       [(''parse'', phase_value (bs_parse summary)),
        (''normalize_validate'', phase_value (bs_normalize_validate summary)),
        (''retrieve'', phase_value (bs_retrieve summary)),
        (''decide'', phase_value (bs_decide summary)),
        (''response_build'', phase_value (bs_response_build summary)),
        (''response_stage'', phase_value (bs_response_stage summary)),
        (''total_internal'', phase_value (bs_total_internal summary))])]"

text \<open>The escapes JSON asks for: quote, backslash and control characters.\<close>

definition plain_char :: "char \<Rightarrow> bool" where
  "plain_char c \<longleftrightarrow> c \<noteq> CHR 0x22 \<and> c \<noteq> CHR 0x5C \<and> 32 \<le> (of_char c :: nat)"

definition hex_digit :: "nat \<Rightarrow> char" where
  "hex_digit d = (if d < 10 then digit_char d else char_of (87 + d))"

definition json_escape :: "char \<Rightarrow> string" where
  "json_escape c =
    (if plain_char c then [c]
     else if c = CHR 0x22 \<or> c = CHR 0x5C then [CHR 0x5C, c]
     else CHR 0x5C # ''u00'' @ [hex_digit (of_char c div 16), hex_digit (of_char c mod 16)])"

section \<open>Lemmas: the file is the rendering\<close>

lemma copied [simp]: "concat (map (\<lambda>c. [c]) s) = s"
  by (induction s) simp_all

lemma phase_json_render:
  "phase_json name phase =
    ''    '' @ quoted name @ '': '' @ render (\<lambda>c. [c]) ''    '' (phase_value phase)"
  by (simp add: phase_json_def phase_value_def nl_def)

lemma write_json_render:
  assumes "summarize ldp r = Some summary"
  shows "write_json ldp True now_time r path metadata = Some (True, Some (path,
    render (\<lambda>c. [c]) ''''
      (report_value (if bm_timestamp_utc metadata = '''' then timestamp_now_utc now_time else bm_timestamp_utc metadata)
        metadata summary) @ nl))"
  using assms by (simp add: write_json_def phase_json_render report_value_def Let_def nl_def)

section \<open>Lemmas: escapes\<close>

lemma json_escape_plain: "plain_char c \<Longrightarrow> json_escape c = [c]"
  and json_escape_long: "\<not> plain_char c \<Longrightarrow> 2 \<le> length (json_escape c)"
  by (simp_all add: json_escape_def)

lemma json_escape_nonempty: "1 \<le> length (json_escape c)"
  using json_escape_plain [of c] json_escape_long [of c] by (cases "plain_char c") simp_all

lemma escape_length: "length s \<le> length (concat (map json_escape s))"
proof (induction s)
  case (Cons c s)
  then show ?case using json_escape_nonempty [of c] by simp
qed simp

lemma escape_plain: "list_all plain_char s \<Longrightarrow> concat (map json_escape s) = s"
  by (induction s) (simp_all add: json_escape_plain)

lemma escape_longer: "\<not> list_all plain_char s \<Longrightarrow> length s < length (concat (map json_escape s))"
proof (induction s)
  case (Cons c s)
  show ?case
  proof (cases "plain_char c")
    case True
    then show ?thesis using Cons by (simp add: json_escape_plain)
  next
    case False
    then show ?thesis using json_escape_long [of c] escape_length [of s] by simp
  qed
qed simp

lemma render_phase_escape: "render esc ind (phase_value phase) = render (\<lambda>c. [c]) ind (phase_value phase)"
  by (simp add: phase_value_def)

lemma report_escape:
  "render (\<lambda>c. [c]) ind (report_value ts md summary) = render json_escape ind (report_value ts md summary) \<longleftrightarrow>
    list_all plain_char (ts @ bm_campaign_data_path md)" (is "?L = ?R \<longleftrightarrow> _")
proof
  let ?path = "bm_campaign_data_path md"
  assume "?L = ?R"
  then have "length ?L = length ?R" by simp
  then have "length ts + length ?path = length (concat (map json_escape ts)) + length (concat (map json_escape ?path))"
    unfolding report_value_def
    by (simp only: render.simps render_members.simps copied render_phase_escape [of json_escape])
      (simp add: quoted_def del: length_concat)
  then have "\<not> length ts < length (concat (map json_escape ts))"
    "\<not> length ?path < length (concat (map json_escape ?path))"
    using escape_length [of ts] escape_length [of ?path] by linarith+
  then show "list_all plain_char (ts @ ?path)" using escape_longer by (auto simp: list_all_append)
next
  assume "list_all plain_char (ts @ bm_campaign_data_path md)"
  then show "?L = ?R"
    unfolding report_value_def
    by (simp only: render.simps render_members.simps copied render_phase_escape [of json_escape]
        escape_plain list_all_append)
qed

lemma digit_plain: "is_digit c \<Longrightarrow> plain_char c"
  by (auto simp: is_digit_def plain_char_def)

lemma put_two_plain: "n < 100 \<Longrightarrow> list_all plain_char (put_two n)"
  by (simp add: put_two_def digit_plain digit_char_props)

lemma timestamp_plain: "list_all plain_char (timestamp_now_utc t)"
proof -
  have "list_all plain_char (nat_to_string n)" for n
    using nat_to_string_digits [of n] digit_plain by (auto simp: list_all_iff)
  then show ?thesis
    using gmtime_bounds [of t]
    by (simp add: timestamp_now_utc_def Let_def put_two_plain) (simp add: plain_char_def)
qed

section \<open>Lemmas: what is printed\<close>

lemma summarize_defined:
  assumes "length (br_requests r) \<le> 2 ^ 53"
  shows "\<exists>summary. summarize ldp r = Some summary \<and> bs_request_count summary = completed_requests r"
proof -
  have "\<exists>s. summarize_phase ldp (br_requests r) f = Some s" for f
  proof (cases "br_requests r")
    case (Cons a l)
    then show ?thesis
      using summarize_phase_Some [of "br_requests r" ldp f] assms by auto
  qed (simp add: summarize_phase_def)
  then obtain g where "\<And>f. summarize_phase ldp (br_requests r) f = Some (g f)" by metis
  then show ?thesis by (simp add: summarize_def completed_requests_def Let_def)
qed

lemma two_decimals:
  "digits_value (nat_to_string (n div 100) @ [digit_char (n mod 100 div 10), digit_char (n mod 10)]) = n"
proof -
  have d: "n mod 100 div 10 < 10" "n mod 10 < 10" by simp_all
  have "digits_value ((nat_to_string (n div 100) @ [digit_char (n mod 100 div 10)]) @ [digit_char (n mod 10)]) =
      10 * (10 * (n div 100) + n mod 100 div 10) + n mod 10"
    by (simp only: digits_value_snoc digits_value_nat_to_string digit_char_props(2) [OF d(1)]
        digit_char_props(2) [OF d(2)])
  also have "\<dots> = n"
  proof -
    have "a * 100 + b = n \<Longrightarrow> c * 10 + d = b \<Longrightarrow> 10 * (10 * a + c) + d = n" for a b c d by simp
    moreover have "n mod 100 div 10 * 10 + n mod 10 = n mod 100"
      using div_mult_mod_eq [of "n mod 100" 10] by (simp add: mod_mod_cancel)
    ultimately show ?thesis using div_mult_mod_eq by blast
  qed
  finally show ?thesis by simp
qed

lemma put_fixed2_digits:
  "digits_value (filter is_digit (put_fixed2 x)) = nat (round_even (\<bar>x\<bar> * 100))"
proof -
  define n where "n = nat (round_even (\<bar>x\<bar> * 100))"
  have sign: "\<not> is_digit CHR ''-''" "\<not> is_digit CHR ''.''" by (simp_all add: is_digit_def)
  have all: "filter is_digit (nat_to_string m) = nat_to_string m" for m
    using nat_to_string_digits by simp
  have "filter is_digit (put_fixed2 x) = nat_to_string (n div 100) @ [digit_char (n mod 100 div 10), digit_char (n mod 10)]"
    using digit_char_props(1) [of "n mod 100 div 10"] digit_char_props(1) [of "n mod 10"]
    by (simp add: put_fixed2_def Let_def sign all n_def [symmetric])
  then show ?thesis using two_decimals [of n] by (simp add: n_def)
qed

lemma put_fixed2_near: "\<bar>of_nat (digits_value (filter is_digit (put_fixed2 x))) / 100 - \<bar>x\<bar>\<bar> \<le> 1 / 200"
proof -
  have "round_even (of_int 0) \<le> round_even (\<bar>x\<bar> * 100)" by (intro round_even_mono) simp
  then have "0 \<le> round_even (\<bar>x\<bar> * 100)" unfolding round_even_of_int .
  then have "(of_nat (nat (round_even (\<bar>x\<bar> * 100))) :: rat) = of_int (round_even (\<bar>x\<bar> * 100))" by simp
  moreover have "\<bar>a - b * 100\<bar> \<le> 1 / 2 \<Longrightarrow> \<bar>a / 100 - b\<bar> \<le> 1 / 200" for a b :: rat
    by (simp add: abs_le_iff field_simps)
  ultimately show ?thesis using round_even_near [of "\<bar>x\<bar> * 100"] by (simp only: put_fixed2_digits)
qed

section \<open>Properties\<close>

text \<open>
  C27. The report file is JSON: for up to \<open>2 ^ 53\<close> records the summary is defined, the file holds
  the rendering of its value with strings copied as they are, and this is the rendering with
  the escapes JSON asks for exactly when the path of the campaign data contains no quote,
  backslash or control character; without a given time stamp it carries one that reads back
  as the second of the clock.
\<close>

theorem report_is_json:
  assumes "length (br_requests r) \<le> 2 ^ 53" and "list_all plain_char (bm_timestamp_utc md)"
  shows "\<exists>summary content. summarize ldp r = Some summary \<and>
    bs_request_count summary = completed_requests r \<and>
    write_json ldp True now_time r path md = Some (True, Some (path, content)) \<and>
    timestamp_seconds (timestamp_now_utc now_time) = now_time \<and>
    (let timestamp = (if bm_timestamp_utc md = [] then timestamp_now_utc now_time else bm_timestamp_utc md) in
     content = render (\<lambda>c. [c]) [] (report_value timestamp md summary) @ nl \<and>
     (content = render json_escape [] (report_value timestamp md summary) @ nl \<longleftrightarrow>
       list_all plain_char (bm_campaign_data_path md)))"
proof -
  obtain summary where s: "summarize ldp r = Some summary" "bs_request_count summary = completed_requests r"
    using summarize_defined [OF assms(1)] by blast
  let ?ts = "if bm_timestamp_utc md = [] then timestamp_now_utc now_time else bm_timestamp_utc md"
  have "list_all plain_char ?ts" using assms(2) timestamp_plain by simp
  then show ?thesis
    using s write_json_render [OF s(1), of now_time path md] report_escape [of "[]" ?ts md summary]
    by (simp only: Let_def append_same_eq list_all_append timestamp_reads_back) blast
qed

definition sample_metadata :: "string \<Rightarrow> BenchmarkMetadata" where
  "sample_metadata path = \<lparr>bm_timestamp_utc = ''2025'', bm_port = 8080, bm_workers = 2, bm_request_limit = 10,
    bm_duration_ms = 0, bm_completed_requests = 0, bm_campaign_data_path = path\<rparr>"

text \<open>A path with a quote gives a file that is not JSON.\<close>

theorem report_is_json_witness:
  "\<exists>summary content. summarize 64 (new_recorder 10) = Some summary \<and>
    write_json 64 True 0 (new_recorder 10) ''out'' (sample_metadata [CHR 0x22]) = Some (True, Some (''out'', content)) \<and>
    content \<noteq> render json_escape [] (report_value ''2025'' (sample_metadata [CHR 0x22]) summary) @ nl"
proof -
  have "length (br_requests (new_recorder 10)) \<le> 2 ^ 53" by (simp add: new_recorder_def)
  moreover have "list_all plain_char (bm_timestamp_utc (sample_metadata [CHR 0x22]))"
    by (simp add: sample_metadata_def plain_char_def)
  ultimately show ?thesis
    using report_is_json [of "new_recorder 10" "sample_metadata [CHR 0x22]" 64 0 "''out''"]
    by (auto simp: sample_metadata_def plain_char_def)
qed

text \<open>
  An average is printed, on the terminal as in the report file, with the digits of the nearest
  hundredth before and after the point: at most half a hundredth of error, whatever its size.
\<close>

lemma printed_average_accurate:
  "\<exists>k avg. \<bar>of_nat k / 100 - \<bar>ps_avg_ns phase\<bar>\<bar> \<le> 1 / 200 \<and>
    avg = (if ps_avg_ns phase < 0 then ''-'' else []) @ nat_to_string (k div 100) @ ''.'' @
      [digit_char (k mod 100 div 10), digit_char (k mod 10)] \<and>
    (\<exists>rest. print_phase name phase = ''  '' @ name @ '': avg='' @ avg @ ''ns p50='' @ rest) \<and>
    (\<exists>before rest. phase_json name phase = before @ quoted ''avg_ns'' @ '': '' @ avg @ '','' @ rest)"
proof (intro exI conjI)
  let ?k = "digits_value (filter is_digit (put_fixed2 (ps_avg_ns phase)))"
  show "\<bar>of_nat ?k / 100 - \<bar>ps_avg_ns phase\<bar>\<bar> \<le> 1 / 200" by (rule put_fixed2_near)
  show "put_fixed2 (ps_avg_ns phase) = (if ps_avg_ns phase < 0 then ''-'' else []) @ nat_to_string (?k div 100) @
      ''.'' @ [digit_char (?k mod 100 div 10), digit_char (?k mod 10)]"
    unfolding put_fixed2_digits by (simp add: put_fixed2_def Let_def)
  show "print_phase name phase = ''  '' @ name @ '': avg='' @ put_fixed2 (ps_avg_ns phase) @ ''ns p50='' @
      (to_string (ps_p50_ns phase) @ ''ns p95='' @ to_string (ps_p95_ns phase) @
       ''ns p99='' @ to_string (ps_p99_ns phase) @ ''ns max='' @ to_string (ps_max_ns phase) @ ''ns'' @ nl)"
    by (simp add: print_phase_def)
  show "phase_json name phase =
      (''    '' @ quoted name @ '': {'' @ nl @
       ''      '' @ quoted ''count'' @ '': '' @ to_string (ps_count phase) @ '','' @ nl @
       ''      '' @ quoted ''min_ns'' @ '': '' @ to_string (ps_min_ns phase) @ '','' @ nl @
       ''      '' @ quoted ''max_ns'' @ '': '' @ to_string (ps_max_ns phase) @ '','' @ nl @ ''      '') @
      quoted ''avg_ns'' @ '': '' @ put_fixed2 (ps_avg_ns phase) @ '','' @
      (nl @ ''      '' @ quoted ''p50_ns'' @ '': '' @ to_string (ps_p50_ns phase) @ '','' @ nl @
       ''      '' @ quoted ''p95_ns'' @ '': '' @ to_string (ps_p95_ns phase) @ '','' @ nl @
       ''      '' @ quoted ''p99_ns'' @ '': '' @ to_string (ps_p99_ns phase) @ nl @ ''    }'')"
    by (simp add: phase_json_def)
qed

end
