(* ===== verification/Rtb_Server.thy ===== *)
theory Rtb_Server
  imports Rtb_Server_Config Rtb_Worker_Inv Rtb_Report
begin

text \<open>
  The server: \<open>run_server\<close>, \<open>install_signal_handlers\<close>, \<open>SignalHandlerScope\<close> and
  \<open>request_shutdown\<close> of \<open>src/server.cc\<close>. The results of the system calls are inputs
  (\<open>server_env\<close>); the threads run as an interleaving of the batches of events of the workers
  with signals and the benchmark timer (\<open>server_event\<close>). The recorder and the shutdown
  descriptor are shared: a worker takes the recorder as the last batch of any worker left it.
  A batch is the unit of interleaving: within one, the records of other workers only matter for
  the moment the request limit is noticed.
\<close>

section \<open>Signals\<close>

datatype sig_handler = Sig_Previous nat | Sig_Shutdown

record process =
  pr_sigint :: sig_handler
  pr_sigterm :: sig_handler
  pr_event_fd :: int
  pr_shutdown_requested :: bool

record SignalHandlerScope =
  sg_previous_sigint :: sig_handler
  sg_previous_sigterm :: sig_handler
  sg_previous_event_fd :: int
  sg_installed :: bool

definition empty_scope :: SignalHandlerScope where
  "empty_scope =
    \<lparr>sg_previous_sigint = Sig_Previous 0, sg_previous_sigterm = Sig_Previous 0,
     sg_previous_event_fd = -1, sg_installed = False\<rparr>"

text \<open>The destructor.\<close>

definition leave_scope :: "SignalHandlerScope \<Rightarrow> process \<Rightarrow> process" where
  "leave_scope scope p =
    (if \<not> sg_installed scope then p
     else p\<lparr>pr_sigint := sg_previous_sigint scope, pr_sigterm := sg_previous_sigterm scope,
            pr_event_fd := sg_previous_event_fd scope\<rparr>)"

text \<open>The first two arguments: whether the calls of \<open>sigaction\<close> succeed.\<close>

definition install_signal_handlers ::
  "bool \<Rightarrow> bool \<Rightarrow> int \<Rightarrow> SignalHandlerScope \<Rightarrow> process \<Rightarrow> bool \<times> SignalHandlerScope \<times> process" where
  "install_signal_handlers int_ok term_ok shutdown_event_fd scope p =
    (let scope = scope\<lparr>sg_previous_event_fd := pr_event_fd p\<rparr>;
         p = p\<lparr>pr_event_fd := shutdown_event_fd\<rparr> in
     if \<not> int_ok then (False, scope, p\<lparr>pr_event_fd := sg_previous_event_fd scope\<rparr>)
     else
       let scope = scope\<lparr>sg_previous_sigint := pr_sigint p\<rparr>;
           p = p\<lparr>pr_sigint := Sig_Shutdown\<rparr> in
       if \<not> term_ok
       then (False, scope, p\<lparr>pr_sigint := sg_previous_sigint scope,
                             pr_event_fd := sg_previous_event_fd scope\<rparr>)
       else
         let scope = scope\<lparr>sg_previous_sigterm := pr_sigterm p\<rparr>;
             p = p\<lparr>pr_sigterm := Sig_Shutdown\<rparr> in
         (True, scope\<lparr>sg_installed := True\<rparr>, p))"

section \<open>Starting the workers\<close>

text \<open>
  The last three components serve the benchmark report: the precision of \<open>long double\<close>, the
  time of the system clock, and whether the report file can be opened.
\<close>

record server_env =
  se_files :: "string \<Rightarrow> string option"
  se_eventfd :: int
  se_sigint_ok :: bool
  se_sigterm_ok :: bool
  se_startup :: "nat \<Rightarrow> startup"
  se_world :: "nat \<Rightarrow> world"
  se_os :: "nat \<Rightarrow> os"
  se_ldp :: nat
  se_now :: nat
  se_json_opens :: bool

definition worker_config :: "ServerConfig \<Rightarrow> int \<Rightarrow> nat \<Rightarrow> WorkerConfig" where
  "worker_config config shutdown_event_fd worker_id =
    (default_WorkerConfig '''')
      \<lparr>wc_worker_id := int worker_id, wc_port := sc_port config,
       wc_shutdown_fd := shutdown_event_fd,
       wc_campaign_data_path := sc_campaign_data_path config\<rparr>"

text \<open>
  The loop: \<open>n\<close> workers are still to be started, \<open>runtimes\<close> are up. On failure the result is
  the set of descriptors closed: those of the failed worker and of all runtimes.
\<close>

fun start_workers ::
  "server_env \<Rightarrow> ServerConfig \<Rightarrow> CampaignStoreSnapshot \<Rightarrow> BenchmarkRecorder option \<Rightarrow> nat \<Rightarrow>
    WorkerRuntime list \<Rightarrow> WorkerRuntime list + int set" where
  "start_workers env config store recorder 0 runtimes = Inl runtimes"
| "start_workers env config store recorder (Suc n) runtimes =
    (let worker_id = length runtimes;
         rt = (empty_runtime (worker_config config (se_eventfd env) worker_id))
           \<lparr>wr_benchmark_recorder := recorder, wr_campaign_store := Some store\<rparr> in
     case initialize_worker_runtime (se_files env) (se_startup env worker_id) rt of
       (False, _, gone) \<Rightarrow> Inr (gone \<union> (\<Union>r \<in> set runtimes. snd (shutdown_worker_runtime r)))
     | (True, rt, _) \<Rightarrow> start_workers env config store recorder n (runtimes @ [rt]))"

section \<open>Running\<close>

record worker =
  wk_runtime :: WorkerRuntime
  wk_os :: os
  wk_running :: bool

record server =
  sv_workers :: "worker list"
  sv_recorder :: "BenchmarkRecorder option"
  sv_process :: process
  sv_wakes :: nat
  sv_exit_code :: int

datatype server_event = Ev_Batch nat "epoll_event list option" | Ev_Signal | Ev_Timer

definition request_shutdown :: "int \<Rightarrow> server \<Rightarrow> server" where
  "request_shutdown shutdown_event_fd sv =
    (let sv = sv\<lparr>sv_process := (sv_process sv)\<lparr>pr_shutdown_requested := True\<rparr>\<rparr> in
     if shutdown_event_fd < 0 then sv else sv\<lparr>sv_wakes := sv_wakes sv + 1\<rparr>)"

definition handle_shutdown_signal :: "server \<Rightarrow> server" where
  "handle_shutdown_signal sv =
    (let sv = sv\<lparr>sv_process := (sv_process sv)\<lparr>pr_shutdown_requested := True\<rparr>\<rparr> in
     if pr_event_fd (sv_process sv) < 0 then sv else sv\<lparr>sv_wakes := sv_wakes sv + 1\<rparr>)"

text \<open>
  One step of the threads: a batch of a running worker, with the shared recorder; when its
  loop returns zero, at the shutdown event, the thread requests a shutdown. The timer exists for a benchmark with a duration only.
\<close>

definition server_step :: "server_env \<Rightarrow> ServerConfig \<Rightarrow> server \<Rightarrow> server_event \<Rightarrow> server option" where
  "server_step env config sv ev =
    (case ev of
       Ev_Signal \<Rightarrow> Some (handle_shutdown_signal sv)
     | Ev_Timer \<Rightarrow>
         if sc_benchmark config \<and> sc_benchmark_duration_ms config \<noteq> 0
         then Some (request_shutdown (se_eventfd env) sv) else None
     | Ev_Batch i batch \<Rightarrow>
         if \<not> (i < length (sv_workers sv) \<and> wk_running (sv_workers sv ! i)) then None
         else
           case batch of
             None \<Rightarrow> Some sv
           | Some evs \<Rightarrow>
             let wk = sv_workers sv ! i;
                 rt = (wk_runtime wk)\<lparr>wr_benchmark_recorder := sv_recorder sv\<rparr> in
             case process_events (se_world env i) rt (wk_os wk) evs of
               None \<Rightarrow> None
             | Some (stop, rt, s) \<Rightarrow>
                 let sv = sv\<lparr>sv_workers := (sv_workers sv)[i :=
                         \<lparr>wk_runtime = rt, wk_os = s, wk_running = \<not> stop\<rparr>],
                       sv_recorder := wr_benchmark_recorder rt\<rparr> in
                 if \<not> stop then Some sv
                 else
                   let worker_result = 0;
                       sv = (if worker_result \<noteq> 0 then sv\<lparr>sv_exit_code := worker_result\<rparr> else sv)
                   in Some (request_shutdown (se_eventfd env) sv))"

fun run_steps :: "server_env \<Rightarrow> ServerConfig \<Rightarrow> server \<Rightarrow> server_event list \<Rightarrow> server option" where
  "run_steps env config sv [] = Some sv"
| "run_steps env config sv (ev # evs) =
    (case server_step env config sv ev of
       None \<Rightarrow> None | Some sv \<Rightarrow> run_steps env config sv evs)"

section \<open>The server\<close>

definition make_recorder :: "ServerConfig \<Rightarrow> BenchmarkRecorder option" where
  "make_recorder config =
    (if sc_benchmark config then Some (new_recorder (sc_benchmark_requests config)) else None)"

text \<open>The threads right after they were created.\<close>

definition start_state ::
  "server_env \<Rightarrow> BenchmarkRecorder option \<Rightarrow> process \<Rightarrow> WorkerRuntime list \<Rightarrow> server" where
  "start_state env recorder p runtimes =
    \<lparr>sv_workers = map (\<lambda>i. \<lparr>wk_runtime = runtimes ! i, wk_os = se_os env i, wk_running = True\<rparr>)
       [0..<length runtimes],
     sv_recorder = recorder, sv_process = p, sv_wakes = 0, sv_exit_code = 0\<rparr>"

text \<open>The line printed when the workers are up.\<close>

definition listening_line :: "ServerConfig \<Rightarrow> string" where
  "listening_line config =
    ''rtb_engine listening on port '' @ nat_to_string (unat (sc_port config)) @ '' with '' @
    put_int (sc_workers config) @ '' worker(s)'' @ nl"

text \<open>
  The report after the run: the text printed and the file written. A report file that cannot
  be written is only logged.
\<close>

definition report_benchmark ::
  "server_env \<Rightarrow> ServerConfig \<Rightarrow> BenchmarkRecorder option \<Rightarrow> (string \<times> (string \<times> string) option) option" where
  "report_benchmark env config recorder =
    (case recorder of
       None \<Rightarrow> Some ('''', None)
     | Some r \<Rightarrow>
       (case print_summary (se_ldp env) r of
          None \<Rightarrow> None
        | Some summary \<Rightarrow>
          if sc_benchmark_json_path config = '''' then Some (summary, None)
          else
            let metadata =
                  \<lparr>bm_timestamp_utc = '''', bm_port = sc_port config, bm_workers = sc_workers config,
                   bm_request_limit = sc_benchmark_requests config,
                   bm_duration_ms = sc_benchmark_duration_ms config,
                   bm_completed_requests = completed_requests r,
                   bm_campaign_data_path = sc_campaign_data_path config\<rparr> in
            case write_json (se_ldp env) (se_json_opens env) (se_now env) r
                (sc_benchmark_json_path config) metadata of
              None \<Rightarrow> None
            | Some (_, written) \<Rightarrow> Some (summary, written)))"

text \<open>
  The result: exit code, process state, descriptors closed, and, when the workers ran, the
  state in which all worker threads were joined, the text on standard output and the report
  file. \<open>None\<close>: the events given do not bring every worker loop to its end, or the report is undefined.
\<close>

definition run_server ::
  "server_env \<Rightarrow> process \<Rightarrow> ServerConfig \<Rightarrow> server_event list \<Rightarrow>
    (int \<times> process \<times> int set \<times> (server \<times> string \<times> (string \<times> string) option) option) option" where
  "run_server env p config evs =
    (if sc_port config = 0 then Some (1, p, {}, None)
     else if sc_workers config \<le> 0 then Some (1, p, {}, None)
     else
       case load_campaign_store_snapshot (se_files env) (sc_campaign_data_path config) of
         None \<Rightarrow> Some (1, p, {}, None)
       | Some store \<Rightarrow>
       let shutdown_event_fd = se_eventfd env in
       if shutdown_event_fd = -1 then Some (1, p, {}, None)
       else
         let (installed, scope, p) =
           install_signal_handlers (se_sigint_ok env) (se_sigterm_ok env) shutdown_event_fd empty_scope p in
         if \<not> installed
         then Some (1, leave_scope scope (p\<lparr>pr_event_fd := -1\<rparr>), {shutdown_event_fd}, None)
         else
           let p = p\<lparr>pr_shutdown_requested := False\<rparr>;
               recorder = make_recorder config in
           case start_workers env config store recorder (nat (sc_workers config)) [] of
             Inr gone \<Rightarrow> Some (1, leave_scope scope (p\<lparr>pr_event_fd := -1\<rparr>),
               gone \<union> {shutdown_event_fd}, None)
           | Inl runtimes \<Rightarrow>
             case run_steps env config (start_state env recorder p runtimes) evs of
               None \<Rightarrow> None
             | Some sv \<Rightarrow>
                 if \<exists>wk \<in> set (sv_workers sv). wk_running wk then None
                 else
                   case report_benchmark env config (sv_recorder sv) of
                     None \<Rightarrow> None
                   | Some (report, file) \<Rightarrow>
                     Some (sv_exit_code sv, leave_scope scope ((sv_process sv)\<lparr>pr_event_fd := -1\<rparr>),
                       (\<Union>wk \<in> set (sv_workers sv). snd (shutdown_worker_runtime (wk_runtime wk)))
                         \<union> {shutdown_event_fd}, Some (sv, listening_line config @ report, file)))"

section \<open>Lemmas: starting\<close>

definition fresh_runtime ::
  "server_env \<Rightarrow> ServerConfig \<Rightarrow> CampaignStoreSnapshot \<Rightarrow> BenchmarkRecorder option \<Rightarrow> nat \<Rightarrow> WorkerRuntime" where
  "fresh_runtime env config store recorder i =
    (empty_runtime (worker_config config (se_eventfd env) i))
      \<lparr>wr_benchmark_recorder := recorder, wr_campaign_store := Some store\<rparr>"

definition started ::
  "server_env \<Rightarrow> ServerConfig \<Rightarrow> CampaignStoreSnapshot \<Rightarrow> BenchmarkRecorder option \<Rightarrow> nat \<Rightarrow> WorkerRuntime \<Rightarrow> bool" where
  "started env config store recorder i rt \<longleftrightarrow>
    initialize_worker_runtime (se_files env) (se_startup env i)
      (fresh_runtime env config store recorder i) = (True, rt, {})"

text \<open>System calls return a descriptor or minus one.\<close>

definition descriptors_ok :: "server_env \<Rightarrow> bool" where
  "descriptors_ok env \<longleftrightarrow>
    (\<forall>i. -1 \<le> su_socket (se_startup env i) \<and> -1 \<le> su_epoll (se_startup env i))"

lemma fresh_runtime_owns:
  "wr_connections (fresh_runtime env config store recorder i) = Map.empty"
  "wr_listen_fd (fresh_runtime env config store recorder i) = -1"
  "wr_epoll_fd (fresh_runtime env config store recorder i) = -1"
  "wr_campaign_store (fresh_runtime env config store recorder i) = Some store"
  "wr_benchmark_recorder (fresh_runtime env config store recorder i) = recorder"
  "wr_config (fresh_runtime env config store recorder i) = worker_config config (se_eventfd env) i"
  by (simp_all add: fresh_runtime_def empty_runtime_def)

lemma fresh_runtime_closes:
  assumes "descriptors_ok env"
    and "initialize_worker_runtime (se_files env) (se_startup env i)
      (fresh_runtime env config store recorder i) = (ok, rt', gone)"
  shows "ok \<Longrightarrow> owned rt' = opened (se_startup env i) \<and> gone = {}"
    and "\<not> ok \<Longrightarrow> owned rt' = {} \<and> gone = opened (se_startup env i)"
  using initialize_closes [OF assms(2)] assms(1)
  by (simp_all add: fresh_runtime_owns descriptors_ok_def)

lemma start_workers_Suc:
  "start_workers env config store recorder (Suc n) runtimes =
    (case initialize_worker_runtime (se_files env) (se_startup env (length runtimes))
        (fresh_runtime env config store recorder (length runtimes)) of
       (False, _, gone) \<Rightarrow> Inr (gone \<union> (\<Union>r \<in> set runtimes. snd (shutdown_worker_runtime r)))
     | (True, rt, _) \<Rightarrow> start_workers env config store recorder n (runtimes @ [rt]))"
  by (simp add: Let_def fresh_runtime_def)

declare start_workers.simps(2) [simp del]

lemma start_workers_spec:
  assumes fds: "descriptors_ok env"
    and up: "\<forall>i < length runtimes. started env config store recorder i (runtimes ! i)"
  shows "case start_workers env config store recorder n runtimes of
      Inl rts \<Rightarrow> length rts = length runtimes + n \<and>
        (\<forall>i < length rts. started env config store recorder i (rts ! i))
    | Inr gone \<Rightarrow> \<exists>k < length runtimes + n. gone = (\<Union>i \<le> k. opened (se_startup env i))"
  using up
proof (induction n arbitrary: runtimes)
  case (Suc n)
  let ?k = "length runtimes"
  obtain ok rt gone where init: "initialize_worker_runtime (se_files env) (se_startup env ?k)
      (fresh_runtime env config store recorder ?k) = (ok, rt, gone)" by (metis prod_cases3)
  note cl = fresh_runtime_closes [OF fds init]
  show ?case
  proof (cases ok)
    case True
    then have "started env config store recorder ?k rt" using init cl(1) by (simp add: started_def)
    then have "\<forall>i < length (runtimes @ [rt]). started env config store recorder i ((runtimes @ [rt]) ! i)"
      using Suc.prems by (auto simp: nth_append less_Suc_eq)
    from Suc.IH [OF this] show ?thesis using init True
      by (simp add: start_workers_Suc split: sum.splits)
  next
    case False
    have "snd (shutdown_worker_runtime (runtimes ! i)) = opened (se_startup env i)" if "i < ?k" for i
      using Suc.prems that fresh_runtime_closes(1) [OF fds] by (auto simp: started_def shutdown_closes)
    then have "(\<Union>r \<in> set runtimes. snd (shutdown_worker_runtime r)) = (\<Union>i < ?k. opened (se_startup env i))"
      by (auto simp: set_conv_nth)
    then have "gone \<union> (\<Union>r \<in> set runtimes. snd (shutdown_worker_runtime r)) = (\<Union>i \<le> ?k. opened (se_startup env i))"
      using cl(2) False by (auto simp: le_less)
    then show ?thesis using init False by (auto simp: start_workers_Suc intro!: exI [of _ ?k])
  qed
qed simp

section \<open>Lemmas: the shared recorder\<close>

lemma worker_inv_recorder:
  "worker_inv k w (rt\<lparr>wr_benchmark_recorder := r\<rparr>) s \<longleftrightarrow>
    worker_inv 0 w (rt\<lparr>wr_benchmark_recorder := None\<rparr>) s \<and>
    (\<forall>b. r = Some b \<longrightarrow> length (br_requests b) = k + length (os_log s))"
proof -
  have "env_ok w (rt\<lparr>wr_benchmark_recorder := r\<rparr>) = env_ok w rt"
    "answered w (rt\<lparr>wr_benchmark_recorder := r\<rparr>) s = answered w rt s"
    "connection_inv w (rt\<lparr>wr_benchmark_recorder := r\<rparr>) s = connection_inv w rt s" for r
    by (auto simp: env_ok_def answered_def connection_inv_def live_def idle_def intro!: ext)
  then show ?thesis by (auto simp: worker_inv_def recorded_def)
qed

text \<open>The invariant of the server: that of each worker, and every answer is recorded once.\<close>

definition answers_total :: "server \<Rightarrow> nat" where
  "answers_total sv = (\<Sum>wk \<leftarrow> sv_workers sv. length (os_log (wk_os wk)))"

definition server_inv :: "server_env \<Rightarrow> server \<Rightarrow> bool" where
  "server_inv env sv \<longleftrightarrow>
    (\<forall>i < length (sv_workers sv). worker_inv 0 (se_world env i)
      ((wk_runtime (sv_workers sv ! i))\<lparr>wr_benchmark_recorder := None\<rparr>) (wk_os (sv_workers sv ! i))) \<and>
    (\<forall>b. sv_recorder sv = Some b \<longrightarrow> length (br_requests b) = answers_total sv)"

lemma server_inv_irrelevant [simp]:
  "server_inv env (sv\<lparr>sv_process := p\<rparr>) \<longleftrightarrow> server_inv env sv"
  "server_inv env (sv\<lparr>sv_wakes := n\<rparr>) \<longleftrightarrow> server_inv env sv"
  "server_inv env (sv\<lparr>sv_process := p, sv_wakes := n\<rparr>) \<longleftrightarrow> server_inv env sv"
  by (simp_all add: server_inv_def answers_total_def)

lemma request_shutdown_inv [simp]: "server_inv env (request_shutdown fd sv) \<longleftrightarrow> server_inv env sv"
  by (simp add: request_shutdown_def Let_def)

text \<open>What a worker relies on when a batch starts: the records that are not its own are the others'.\<close>

lemma batch_worker_inv:
  assumes inv: "server_inv env sv" and i: "i < length (sv_workers sv)"
  defines "own \<equiv> length (os_log (wk_os (sv_workers sv ! i)))"
  shows "own \<le> answers_total sv"
    and "worker_inv (answers_total sv - own) (se_world env i)
      ((wk_runtime (sv_workers sv ! i))\<lparr>wr_benchmark_recorder := sv_recorder sv\<rparr>) (wk_os (sv_workers sv ! i))"
proof -
  show le: "own \<le> answers_total sv"
    using i member_le_sum_list [of own "map (\<lambda>wk. length (os_log (wk_os wk))) (sv_workers sv)"]
    by (auto simp: answers_total_def own_def)
  show "worker_inv (answers_total sv - own) (se_world env i)
      ((wk_runtime (sv_workers sv ! i))\<lparr>wr_benchmark_recorder := sv_recorder sv\<rparr>) (wk_os (sv_workers sv ! i))"
    using inv i le unfolding worker_inv_recorder [of "answers_total sv - own"] by (auto simp: server_inv_def own_def)
qed

lemma batch_inv:
  assumes inv: "server_inv env sv" and i: "i < length (sv_workers sv)"
    and step: "process_events (se_world env i)
      ((wk_runtime (sv_workers sv ! i))\<lparr>wr_benchmark_recorder := sv_recorder sv\<rparr>)
      (wk_os (sv_workers sv ! i)) evs = Some (stop, rt, s)"
  shows "server_inv env (sv\<lparr>sv_workers := (sv_workers sv)[i :=
      \<lparr>wk_runtime = rt, wk_os = s, wk_running = running\<rparr>], sv_recorder := wr_benchmark_recorder rt\<rparr>)"
proof -
  define log where "log j = length (os_log (wk_os (sv_workers sv ! j)))" for j
  define k where "k = answers_total sv - log i"
  note own = batch_worker_inv [OF inv i]
  have tot: "answers_total sv = k + log i" using own(1) by (simp add: k_def log_def)
  have "worker_inv k (se_world env i)
      ((wk_runtime (sv_workers sv ! i))\<lparr>wr_benchmark_recorder := sv_recorder sv\<rparr>) (wk_os (sv_workers sv ! i))"
    using own(2) by (simp add: k_def log_def)
  from process_events_inv [OF step this] have "worker_inv k (se_world env i) rt s" .
  then have "worker_inv k (se_world env i)
      (rt\<lparr>wr_benchmark_recorder := wr_benchmark_recorder rt\<rparr>) s" by simp
  then have rt: "worker_inv 0 (se_world env i) (rt\<lparr>wr_benchmark_recorder := None\<rparr>) s"
    "\<And>b. wr_benchmark_recorder rt = Some b \<Longrightarrow> length (br_requests b) = k + length (os_log s)"
    unfolding worker_inv_recorder [of k] by simp_all
  have "answers_total (sv\<lparr>sv_workers := (sv_workers sv)[i :=
      \<lparr>wk_runtime = rt, wk_os = s, wk_running = running\<rparr>], sv_recorder := wr_benchmark_recorder rt\<rparr>) =
      k + length (os_log s)"
    using i tot by (simp add: answers_total_def map_update sum_list_update log_def)
  then show ?thesis
    using inv rt i by (auto simp: server_inv_def nth_list_update)
qed

lemma server_step_inv:
  assumes "server_inv env sv" "server_step env config sv ev = Some sv'"
  shows "server_inv env sv'"
proof (cases ev)
  case (Ev_Batch i batch)
  then show ?thesis
    using assms batch_inv [OF assms(1)]
    by (auto simp: server_step_def Let_def split: if_splits option.splits)
qed (use assms in \<open>auto simp: server_step_def handle_shutdown_signal_def Let_def split: if_splits\<close>)

lemma run_steps_partial: "run_steps env config sv evs = partial_run (server_step env config) sv evs"
  by (induction evs arbitrary: sv) (auto split: option.splits)

interpretation invariant: stepped_component "server_step env config" "server_inv env" for env config
  by unfold_locales (rule server_step_inv)

lemma run_steps_inv:
  "run_steps env config sv evs = Some sv' \<Longrightarrow> server_inv env sv \<Longrightarrow> server_inv env sv'"
  unfolding run_steps_partial by (rule invariant.run_inv)

text \<open>What no step changes.\<close>

lemma server_step_handlers:
  assumes "server_step env config sv ev = Some sv'"
  shows "pr_sigint (sv_process sv') = pr_sigint (sv_process sv)"
    "pr_sigterm (sv_process sv') = pr_sigterm (sv_process sv)"
    "sv_exit_code sv' = sv_exit_code sv"
  using assms
  by (auto simp: server_step_def handle_shutdown_signal_def request_shutdown_def Let_def
      split: server_event.splits if_splits option.splits)

interpretation handlers: stepped_component "server_step env config"
  "\<lambda>sv. pr_sigint (sv_process sv) = h \<and> pr_sigterm (sv_process sv) = h' \<and> sv_exit_code sv = code"
  for env config h h' code
  by unfold_locales (auto dest: server_step_handlers)

lemma run_steps_handlers:
  "run_steps env config sv evs = Some sv' \<Longrightarrow>
    pr_sigint (sv_process sv') = pr_sigint (sv_process sv) \<and>
    pr_sigterm (sv_process sv') = pr_sigterm (sv_process sv) \<and> sv_exit_code sv' = sv_exit_code sv"
  unfolding run_steps_partial by (rule handlers.run_inv) simp_all

text \<open>The recorder stays there, with its limit.\<close>

lemma server_step_recorder:
  assumes "server_step env config sv ev = Some sv'"
  shows "map_option br_request_limit (sv_recorder sv') = map_option br_request_limit (sv_recorder sv)"
  using assms
  by (auto simp: server_step_def handle_shutdown_signal_def request_shutdown_def Let_def same_setup_def
      split: server_event.splits if_splits option.splits dest!: process_events_setup)

interpretation recorder: stepped_component "server_step env config"
  "\<lambda>sv. map_option br_request_limit (sv_recorder sv) = limit" for env config limit
  by unfold_locales (simp add: server_step_recorder)

lemma run_steps_recorder:
  "run_steps env config sv evs = Some sv' \<Longrightarrow>
    map_option br_request_limit (sv_recorder sv') = map_option br_request_limit (sv_recorder sv)"
  unfolding run_steps_partial by (rule recorder.run_inv) simp_all

section \<open>Lemmas: the whole run\<close>

text \<open>What the workers of a run rely on.\<close>

definition environment_ok :: "server_env \<Rightarrow> bool" where
  "environment_ok env \<longleftrightarrow>
    descriptors_ok env \<and> (\<forall>i. serializes (w_lib (se_world env i)) \<and> untouched (se_os env i)) \<and>
    (\<forall>path store. load_campaign_store_snapshot (se_files env) path = Some store \<longrightarrow> store_fits store)"

lemma worker_config_bounds:
  "unat (wc_connection_buffer_capacity (worker_config config fd i)) < max_vec"
  "unat (wc_max_frame_size (worker_config config fd i)) \<le> 2 ^ 32 - 5"
  by (simp_all add: worker_config_def default_WorkerConfig_def max_vec_def)

lemma started_inv:
  assumes st: "started env config store recorder i rt" and env: "environment_ok env" and wf: "store_wf store"
    and "\<And>r. recorder = Some r \<Longrightarrow> br_requests r = []"
  shows "worker_inv 0 (se_world env i) rt (se_os env i)"
proof (rule initial_inv)
  show init: "initialize_worker_runtime (se_files env) (se_startup env i)
    (fresh_runtime env config store recorder i) = (True, rt, {})" using st by (simp add: started_def)
  show "store_wf st" if "wr_campaign_store rt = Some st" for st
    using initialize_success(6) [OF init] wf that by (simp add: fresh_runtime_owns)
qed (use assms worker_config_bounds in \<open>auto simp: environment_ok_def fresh_runtime_owns\<close>)

lemma start_inv:
  assumes env: "environment_ok env" and wf: "store_wf store"
    and rec: "\<And>r. recorder = Some r \<Longrightarrow> br_requests r = []"
    and rts: "start_workers env config store recorder n [] = Inl rts"
  shows "server_inv env (start_state env recorder p rts)" and "length rts = n"
proof -
  have spec: "length rts = n" "\<And>i. i < n \<Longrightarrow> started env config store recorder i (rts ! i)"
    using start_workers_spec [of env "[]" config store recorder n] env rts
    by (simp_all add: environment_ok_def)
  show "length rts = n" by (rule spec)
  have "worker_inv 0 (se_world env i) ((rts ! i)\<lparr>wr_benchmark_recorder := None\<rparr>) (se_os env i)"
    if "i < n" for i
  proof -
    have "worker_inv 0 (se_world env i) ((rts ! i)\<lparr>wr_benchmark_recorder := wr_benchmark_recorder (rts ! i)\<rparr>)
        (se_os env i)"
      using started_inv [OF spec(2) [OF that] env wf rec] by simp
    then show ?thesis unfolding worker_inv_recorder [where k = 0 and r = "wr_benchmark_recorder (rts ! i)"] by simp
  qed
  moreover have "(\<Sum>i \<leftarrow> [0..<n]. length (os_log (se_os env i))) = 0"
    using env by (simp add: environment_ok_def untouched_def o_def)
  ultimately show "server_inv env (start_state env recorder p rts)"
    using spec(1) rec by (simp add: server_inv_def answers_total_def start_state_def o_def)
qed

text \<open>The two kinds of results of a run.\<close>

lemma install_failed:
  "install_signal_handlers a b fd scope p = (False, scope', p') \<Longrightarrow> p' = p \<and> sg_installed scope' = sg_installed scope"
  by (auto simp: install_signal_handlers_def Let_def split: if_splits)

lemma install_done:
  "install_signal_handlers a b fd scope p = (True, scope', p') \<Longrightarrow>
    sg_installed scope' \<and> sg_previous_sigint scope' = pr_sigint p \<and>
    sg_previous_sigterm scope' = pr_sigterm p \<and> sg_previous_event_fd scope' = pr_event_fd p \<and>
    p' = p\<lparr>pr_sigint := Sig_Shutdown, pr_sigterm := Sig_Shutdown, pr_event_fd := fd\<rparr>"
  by (auto simp: install_signal_handlers_def Let_def split: if_splits)

lemma run_server_refused:
  assumes "run_server env p config evs = Some (code, p', gone, None)"
  shows "code = 1" and "pr_sigint p' = pr_sigint p" and "pr_sigterm p' = pr_sigterm p"
  using assms
  by (auto simp: run_server_def Let_def empty_scope_def leave_scope_def
      split: if_splits option.splits prod.splits sum.splits
      dest!: install_failed install_done)

lemma run_server_finished:
  assumes env: "environment_ok env" and run: "run_server env p config evs = Some (code, p', gone, Some (sv, out, file))"
  shows "code = 0" and "pr_sigint p' = pr_sigint p" and "pr_sigterm p' = pr_sigterm p"
    and "server_inv env sv" and "\<forall>wk \<in> set (sv_workers sv). \<not> wk_running wk"
    and "\<exists>report. report_benchmark env config (sv_recorder sv) = Some (report, file) \<and>
      out = listening_line config @ report"
    and "sv_recorder sv = None \<longleftrightarrow> \<not> sc_benchmark config"
proof -
  obtain store scope p1 rts where
    store: "load_campaign_store_snapshot (se_files env) (sc_campaign_data_path config) = Some store"
    and inst: "install_signal_handlers (se_sigint_ok env) (se_sigterm_ok env) (se_eventfd env) empty_scope p
      = (True, scope, p1)"
    and rts: "start_workers env config store (make_recorder config) (nat (sc_workers config)) [] = Inl rts"
    and steps: "run_steps env config (start_state env (make_recorder config)
      (p1\<lparr>pr_shutdown_requested := False\<rparr>) rts) evs = Some sv"
    and fin: "\<forall>wk \<in> set (sv_workers sv). \<not> wk_running wk" "code = sv_exit_code sv"
      "p' = leave_scope scope ((sv_process sv)\<lparr>pr_event_fd := -1\<rparr>)"
    and rep: "\<exists>report. report_benchmark env config (sv_recorder sv) = Some (report, file) \<and>
      out = listening_line config @ report"
    using run by (auto simp: run_server_def Let_def
        split: if_splits option.splits prod.splits sum.splits)
  have wf: "store_wf store" using load_store_wf [OF store] store env by (simp add: environment_ok_def)
  have "\<And>r. make_recorder config = Some r \<Longrightarrow> br_requests r = []" by (auto simp: make_recorder_def new_recorder_def split: if_splits)
  from start_inv(1) [OF env wf this rts] run_steps_inv [OF steps]
  show "server_inv env sv" by blast
  show "\<forall>wk \<in> set (sv_workers sv). \<not> wk_running wk" by (rule fin)
  show "code = 0" "pr_sigint p' = pr_sigint p" "pr_sigterm p' = pr_sigterm p"
    using run_steps_handlers [OF steps] fin install_done [OF inst]
    by (simp_all add: leave_scope_def start_state_def)
  show "\<exists>report. report_benchmark env config (sv_recorder sv) = Some (report, file) \<and>
    out = listening_line config @ report" by (rule rep)
  show "sv_recorder sv = None \<longleftrightarrow> \<not> sc_benchmark config"
    using run_steps_recorder [OF steps] by (cases "sv_recorder sv")
      (auto simp: make_recorder_def start_state_def split: if_splits)
qed

end
