(* ===== verification/Rtb_Log.thy ===== *)
theory Rtb_Log
  imports Rtb_Server
begin

text \<open>
  What a start and a report write to standard error: the \<open>LOG_ERROR\<close> lines of \<open>load_campaign_store_snapshot\<close>,
  \<open>initialize_worker_runtime\<close> and \<open>run_server\<close> outside the threads, next to the results
  that \<open>Rtb_Store\<close>, \<open>Rtb_Worker\<close> and \<open>Rtb_Server\<close> give to the same branches. The lemmas show when
  a refusal is explained and that the line it names is the first one refused. Lines of running
  workers and the compiled-out \<open>LOG\<close> are left aside.
\<close>

section \<open>The code\<close>

text \<open>The message is the format with its arguments put in.\<close>

definition LOG_ERROR :: "string \<Rightarrow> string" where
  "LOG_ERROR message = message @ nl"

text \<open>The line number at which the loop of \<open>load_campaign_store_snapshot\<close> gives up.\<close>

fun failing_line :: "nat \<Rightarrow> string list \<Rightarrow> CampaignStoreSnapshot \<Rightarrow> nat option" where
  "failing_line line_number [] snapshot = None"
| "failing_line line_number (line # lines) snapshot =
    (let line_number = line_number + 1 in
     if line = [] \<or> line ! 0 = CHR ''#'' then failing_line line_number lines snapshot
     else if line_number = 1 \<and> take 12 line = ''campaign_id,''
     then failing_line line_number lines snapshot
     else
       let (ok, snapshot) = append_campaign_line (split_csv_line line) snapshot
       in if ok then failing_line line_number lines snapshot else Some line_number)"

definition load_log :: "(string \<Rightarrow> string option) \<Rightarrow> string \<Rightarrow> string" where
  "load_log files path =
    (case files path of
       None \<Rightarrow> LOG_ERROR (''Failed opening campaign store file: '' @ path)
     | Some content \<Rightarrow>
       (case failing_line 0 (getlines content) empty_store of
          None \<Rightarrow> ''''
        | Some n \<Rightarrow> LOG_ERROR
            (''Failed parsing campaign store line '' @ nat_to_string n @ '' from '' @ path)))"

definition initialize_log :: "(string \<Rightarrow> string option) \<Rightarrow> startup \<Rightarrow> WorkerRuntime \<Rightarrow> string" where
  "initialize_log files su rt =
    (let path = wc_campaign_data_path (wr_config rt) in
     if wr_campaign_store rt = None \<and> load_campaign_store_snapshot files path = None
     then load_log files path @ LOG_ERROR (''Failed loading campaign store snapshot from '' @ path)
     else if su_socket su = -1 then ''''
     else if \<not> su_reuse_addr su then LOG_ERROR ''Error setting SO_REUSEADDR''
     else if \<not> su_reuse_port su then LOG_ERROR ''Error setting SO_REUSEPORT''
     else if \<not> su_bind su
     then LOG_ERROR (''Error binding to port '' @ nat_to_string (unat (wc_port (wr_config rt))))
     else if \<not> su_listen su then LOG_ERROR ''Error starting socket listen''
     else if su_epoll su = -1 then LOG_ERROR ''Error creating epoll fd''
     else if \<not> su_add_listen su then LOG_ERROR ''Error registering listen fd with epoll''
     else if wc_shutdown_fd (wr_config rt) \<ge> 0 \<and> \<not> su_add_shutdown su
     then LOG_ERROR ''Error registering shutdown fd with epoll''
     else '''')"

text \<open>The worker at which the start fails.\<close>

fun start_log ::
  "server_env \<Rightarrow> ServerConfig \<Rightarrow> CampaignStoreSnapshot \<Rightarrow> BenchmarkRecorder option \<Rightarrow> nat \<Rightarrow> nat \<Rightarrow> string" where
  "start_log env config store recorder 0 worker_id = ''''"
| "start_log env config store recorder (Suc n) worker_id =
    (let rt = fresh_runtime env config store recorder worker_id in
     if fst (initialize_worker_runtime (se_files env) (se_startup env worker_id) rt)
     then start_log env config store recorder n (worker_id + 1)
     else initialize_log (se_files env) (se_startup env worker_id) rt)"

definition server_log :: "server_env \<Rightarrow> process \<Rightarrow> ServerConfig \<Rightarrow> string" where
  "server_log env p config =
    (if sc_port config = 0 then LOG_ERROR ''Server port must be non-zero''
     else if sc_workers config \<le> 0 then LOG_ERROR ''Worker count must be positive''
     else
       case load_campaign_store_snapshot (se_files env) (sc_campaign_data_path config) of
         None \<Rightarrow> load_log (se_files env) (sc_campaign_data_path config) @
           LOG_ERROR (''Failed loading campaign store snapshot from '' @ sc_campaign_data_path config)
       | Some store \<Rightarrow>
         if se_eventfd env = -1 then LOG_ERROR ''Failed creating shutdown eventfd''
         else if \<not> fst (install_signal_handlers (se_sigint_ok env) (se_sigterm_ok env) (se_eventfd env) empty_scope p)
         then LOG_ERROR ''Failed installing signal handlers''
         else start_log env config store (make_recorder config) (nat (sc_workers config)) 0)"

text \<open>After the run: whether \<open>write_json\<close> returned false.\<close>

definition report_log :: "server_env \<Rightarrow> ServerConfig \<Rightarrow> BenchmarkRecorder option \<Rightarrow> string" where
  "report_log env config recorder =
    (if recorder \<noteq> None \<and> sc_benchmark_json_path config \<noteq> '''' \<and> \<not> se_json_opens env
     then LOG_ERROR (''Failed writing benchmark JSON to '' @ sc_benchmark_json_path config) else '''')"

section \<open>Lemmas\<close>

lemma LOG_ERROR_nonempty [simp]: "LOG_ERROR m \<noteq> []"
  by (simp add: LOG_ERROR_def nl_def)

lemma failing_line_iff: "failing_line n ls s = None \<longleftrightarrow> load_lines n ls s \<noteq> None"
  by (induction n ls s rule: failing_line.induct) (auto simp: Let_def split: prod.splits)

text \<open>The first refused line: the lines before it load, and it cannot be appended to what they gave.\<close>

lemma failing_line_first:
  assumes "failing_line n ls s = Some k"
  shows "\<exists>before line after s1. ls = before @ line # after \<and> k = n + length before + 1 \<and>
    load_lines n before s = Some s1 \<and> \<not> fst (append_campaign_line (split_csv_line line) s1)"
  using assms
proof (induction ls arbitrary: n s)
  case (Cons line ls)
  show ?case
  proof (cases "failing_line (n + 1) ls s = Some k \<and>
      (line = [] \<or> line ! 0 = CHR ''#'' \<or> n = 0 \<and> take 12 line = ''campaign_id,'')")
    case True
    then obtain before bad after s1 where b: "ls = before @ bad # after" "k = n + 1 + length before + 1"
      "load_lines (n + 1) before s = Some s1" "\<not> fst (append_campaign_line (split_csv_line bad) s1)"
      using Cons.IH [of "n + 1" s] by blast
    have "load_lines n (line # before) s = Some s1" using True b(3) by auto
    then show ?thesis using b(1,2,4)
      by (intro exI [of _ "line # before"] exI [of _ bad] exI [of _ after] exI [of _ s1]) simp
  next
    case False
    then have data: "line \<noteq> []" "line ! 0 \<noteq> CHR ''#''" "\<not> (n = 0 \<and> take 12 line = ''campaign_id,'')"
      using Cons.prems by (auto split: if_splits)
    obtain ok s2 where a: "append_campaign_line (split_csv_line line) s = (ok, s2)" by fastforce
    show ?thesis
    proof (cases ok)
      case True
      then have "failing_line (n + 1) ls s2 = Some k" using Cons.prems data a by auto
      then obtain before bad after s1 where b: "ls = before @ bad # after" "k = n + 1 + length before + 1"
        "load_lines (n + 1) before s2 = Some s1" "\<not> fst (append_campaign_line (split_csv_line bad) s1)"
        using Cons.IH [of "n + 1" s2] by blast
      have "load_lines n (line # before) s = Some s1" using True data a b(3) by auto
      then show ?thesis using b(1,2,4)
        by (intro exI [of _ "line # before"] exI [of _ bad] exI [of _ after] exI [of _ s1]) simp
    next
      case False
      then have "k = n + 1" using Cons.prems data a by auto
      then show ?thesis using False a
        by (intro exI [of _ "[]"] exI [of _ line] exI [of _ ls] exI [of _ s]) simp
    qed
  qed
qed simp

lemma load_log_iff: "load_log files path = [] \<longleftrightarrow> load_campaign_store_snapshot files path \<noteq> None"
proof (cases "files path")
  case (Some content)
  then show ?thesis
    using failing_line_iff [of 0 "getlines content" empty_store]
    by (auto simp: load_log_def load_campaign_store_snapshot_def split: option.splits)
qed (simp add: load_log_def load_campaign_store_snapshot_def)

lemma initialize_log_iff:
  "initialize_log files su rt = [] \<longleftrightarrow>
    fst (initialize_worker_runtime files su rt) \<or>
    su_socket su = -1 \<and> (wr_campaign_store rt \<noteq> None \<or> load_campaign_store_snapshot files (wc_campaign_data_path (wr_config rt)) \<noteq> None)"
  by (auto simp: initialize_log_def initialize_worker_runtime_def Let_def split: option.splits)

lemma start_log_iff:
  "start_workers env config store recorder n runtimes = r \<Longrightarrow>
    (case r of Inl _ \<Rightarrow> start_log env config store recorder n (length runtimes) = []
     | Inr _ \<Rightarrow> start_log env config store recorder n (length runtimes) \<noteq> [] \<or>
         (\<exists>i. i < length runtimes + n \<and> su_socket (se_startup env i) = -1))"
proof (induction n arbitrary: runtimes)
  case (Suc n)
  let ?k = "length runtimes"
  obtain ok rt gone where init: "initialize_worker_runtime (se_files env) (se_startup env ?k)
      (fresh_runtime env config store recorder ?k) = (ok, rt, gone)" by (metis prod_cases3)
  show ?case
  proof (cases ok)
    case True
    then have "start_workers env config store recorder n (runtimes @ [rt]) = r"
      using Suc.prems init by (simp add: start_workers_Suc)
    from Suc.IH [OF this] show ?thesis
      using init True by (auto simp: Let_def split: sum.splits)
  next
    case False
    then show ?thesis
      using Suc.prems init initialize_log_iff [of "se_files env" "se_startup env ?k" "fresh_runtime env config store recorder ?k"]
      by (auto simp: start_workers_Suc Let_def intro!: exI [of _ ?k])
  qed
qed auto

text \<open>A refused run is explained, unless it is a socket of a worker that could not be opened.\<close>

lemma server_log_refused:
  assumes "run_server env p config evs = Some (code, p', gone, None)"
  shows "server_log env p config \<noteq> [] \<or>
    (\<exists>i. i < nat (sc_workers config) \<and> su_socket (se_startup env i) = -1)"
proof (cases "server_log env p config = []")
  case True
  then obtain store scope p1 where up: "sc_port config \<noteq> 0" "0 < sc_workers config"
    "load_campaign_store_snapshot (se_files env) (sc_campaign_data_path config) = Some store" "se_eventfd env \<noteq> -1"
    "install_signal_handlers (se_sigint_ok env) (se_sigterm_ok env) (se_eventfd env) empty_scope p = (True, scope, p1)"
    "start_log env config store (make_recorder config) (nat (sc_workers config)) 0 = []"
    by (cases "install_signal_handlers (se_sigint_ok env) (se_sigterm_ok env) (se_eventfd env) empty_scope p")
      (auto simp: server_log_def split: if_splits option.splits)
  obtain fds where "start_workers env config store (make_recorder config) (nat (sc_workers config)) [] = Inr fds"
    using assms up by (auto simp: run_server_def Let_def split: sum.splits option.splits if_splits)
  from start_log_iff [OF this] up(6) show ?thesis by simp
qed simp

lemma server_log_up:
  assumes "run_server env p config evs = Some (code, p', gone, Some served)"
  shows "server_log env p config = []"
  using assms start_log_iff [of env config _ "make_recorder config" "nat (sc_workers config)" "[]"]
  by (fastforce simp: run_server_def server_log_def Let_def split: if_splits option.splits prod.splits sum.splits)

lemma report_log_written:
  assumes "report_benchmark env config recorder = Some (report, written)"
  shows "report_log env config recorder =
    (if recorder \<noteq> None \<and> sc_benchmark_json_path config \<noteq> [] \<and> written = None
     then LOG_ERROR (''Failed writing benchmark JSON to '' @ sc_benchmark_json_path config) else [])"
  using assms
  by (auto simp: report_log_def report_benchmark_def write_json_def Let_def split: option.splits if_splits)

section \<open>Property\<close>

text \<open>
  C24. A refused campaign file is refused for its first bad line, and the message names it: all
  lines before it load, it cannot be appended to what they gave, and the number written is
  its own, counted from one with comments, empty lines and the header included.
\<close>

theorem refusal_names_line:
  assumes "files path = Some content" and "load_campaign_store_snapshot files path = None"
  shows "\<exists>before line after s1. getlines content = before @ line # after \<and>
    load_lines 0 before empty_store = Some s1 \<and> \<not> fst (append_campaign_line (split_csv_line line) s1) \<and>
    load_log files path = LOG_ERROR
      (''Failed parsing campaign store line '' @ nat_to_string (length before + 1) @ '' from '' @ path)"
proof -
  obtain k where k: "failing_line 0 (getlines content) empty_store = Some k"
    using assms failing_line_iff [of 0 "getlines content" empty_store]
    by (auto simp: load_campaign_store_snapshot_def)
  from failing_line_first [OF this] show ?thesis
    using k assms(1) by (auto simp: load_log_def)
qed

theorem refusal_names_line_witness:
  "load_log (\<lambda>_. Some ''x'') ''f'' = LOG_ERROR ''Failed parsing campaign store line 1 from f''"
proof -
  have lines: "getlines ''x'' = [''x'']" by code_simp
  have "split_csv_line ''x'' = [''x'']" by code_simp
  then have "load_campaign_store_snapshot (\<lambda>_. Some ''x'') ''f'' = None"
    by (simp add: load_campaign_store_snapshot_def lines append_campaign_line_def Let_def)
  from refusal_names_line [OF _ this, of "''x''"] obtain before line after where
    b: "getlines ''x'' = before @ line # after" "load_log (\<lambda>_. Some ''x'') ''f'' = LOG_ERROR
      (''Failed parsing campaign store line '' @ nat_to_string (length before + 1) @ '' from '' @ ''f'')" by auto
  have "before = []" using b(1) lines by (cases before) auto
  moreover have "nat_to_string 1 = ''1''" by code_simp
  ultimately show ?thesis using b(2) by simp
qed

end
