(* ===== verification/Rtb_Sample.thy ===== *)
theory Rtb_Sample
  imports Rtb_Server
begin

text \<open>
  A complete run of one worker, used to instantiate the properties: a client connects, sends a
  request in two pieces, gets its response in two pieces, and the worker is shut down. The
  library is the stand-in \<open>sample_lib\<close>, the campaigns are those of \<open>sample_csv\<close>, and the
  connection buffers have eight bytes.
\<close>

section \<open>The run\<close>

definition sample_world :: world where
  "sample_world = \<lparr>w_lib = sample_lib, w_clock = (\<lambda>_. 5), w_ctl_ok = (\<lambda>_. True)\<rparr>"

definition sample_config :: WorkerConfig where
  "sample_config = (default_WorkerConfig ''.'')\<lparr>wc_connection_buffer_capacity := 8, wc_shutdown_fd := 9\<rparr>"

definition sample_startup :: startup where
  "sample_startup = \<lparr>su_now = 5, su_socket = 3, su_reuse_addr = True, su_reuse_port = True, su_bind = True,
    su_listen = True, su_epoll = 4, su_add_listen = True, su_add_shutdown = True\<rparr>"

definition sample_os :: os where
  "sample_os = \<lparr>os_ticks = 0, os_ctls = 0, os_interest = Map.empty,
    os_reads = [Rd_Bytes [0, 0, 0], Rd_Bytes [1, 42], Rd_EAGAIN], os_writes = [Wr_Bytes 4, Wr_Bytes 2],
    os_accepts = [Ac_Fd 7, Ac_EAGAIN], os_wakes = 0, os_recv = (\<lambda>_. []), os_sent = (\<lambda>_. []), os_log = [], os_arrivals = []\<rparr>"

definition sample_event :: "int \<Rightarrow> bool \<Rightarrow> epoll_event" where
  "sample_event fd out = \<lparr>ev_fd = fd, ev_out = out, ev_err = False, ev_hup = False, ev_rdhup = False\<rparr>"

definition sample_batches :: "epoll_event list option list" where
  "sample_batches = [Some [sample_event 3 False], None, Some [sample_event 7 False],
    Some [sample_event 7 True, sample_event 9 False]]"

lemma sample_setup:
  "\<exists>rt. worker_setup (\<lambda>_. Some sample_csv) sample_startup sample_config sample_world sample_os rt"
proof -
  obtain s c where s: "load_campaign_store_snapshot (\<lambda>_. Some sample_csv) (wc_campaign_data_path sample_config) = Some s"
    "cs_campaigns s = [c]" "length (cs_creatives s) = 2" using sample_load by blast
  then show ?thesis
    using sample_lib_serializes
    by (simp add: worker_setup_def initialize_worker_runtime_def empty_runtime_def sample_startup_def
        sample_config_def default_WorkerConfig_def untouched_def sample_os_def sample_world_def
        store_fits_def max_vec_def Let_def)
qed
text \<open>The buffers of the run: eight bytes, with what was received or staged at the front.\<close>

abbreviation sample_buffer :: "u8 list \<Rightarrow> u64 \<Rightarrow> ReusableBuffer" where
  "sample_buffer bs n \<equiv> \<lparr>storage = bs, read_offset = 0, write_offset = n\<rparr>"

lemma sample_reserve: "reserve empty_buffer 8 = sample_buffer [0, 0, 0, 0, 0, 0, 0, 0] 0"
proof -
  have "replicate 8 0 = [0, 0, 0, 0, 0, 0, 0, 0 :: u8]" by (simp add: eval_nat_numeral)
  then show ?thesis by (simp add: reserve_def empty_buffer_def vec_size_def vec_resize_def)
qed

definition sample_cn :: ConnectionState where
  "sample_cn = empty_connection\<lparr>cn_fd := 7, cn_connection_id := 1,
     cn_read_buffer := sample_buffer [0, 0, 0, 0, 0, 0, 0, 0] 0,
     cn_write_buffer := sample_buffer [0, 0, 0, 0, 0, 0, 0, 0] 0\<rparr>"

lemma sample_accept:
  assumes "wr_config rt = sample_config" "wr_connections rt = Map.empty" "wr_next_connection_id rt = 1"
  shows "accept_loop sample_world rt sample_os [Ac_Fd 7, Ac_EAGAIN] =
    Some (rt\<lparr>wr_next_connection_id := 2, wr_connections := [7 \<mapsto> sample_cn]\<rparr>,
      sample_os\<lparr>os_ctls := 1, os_interest := [7 \<mapsto> False], os_accepts := []\<rparr>)"
  using assms
  by (simp add: sample_os_def sample_world_def sample_config_def default_WorkerConfig_def sample_reserve
      sample_cn_def Let_def)

lemma sample_frames:
  "try_extract_frame (sample_buffer [0, 0, 0, 0, 0, 0, 0, 0] 0) 65536 = (FS_NeedMoreData, empty_FrameView)"
  "try_extract_frame (sample_buffer [0, 0, 0, 0, 0, 0, 0, 0] 3) 65536 = (FS_NeedMoreData, empty_FrameView)"
  "try_extract_frame (sample_buffer [0, 0, 0, 1, 42, 0, 0, 0] 5) 65536 =
    (FS_FrameReady, \<lparr>fv_payload = (4, 1), fv_payload_length = 1, fv_total_frame_bytes = 5\<rparr>)"
proof -
  have wf: "buffer_wf (sample_buffer [0, 0, 0, 1, 42, 0, 0, 0] 5)"
    by (simp add: buffer_wf_def max_vec_def)
  have "decode_frame (unat (65536 :: u32)) (pending (sample_buffer [0, 0, 0, 1, 42, 0, 0, 0] 5)) = Complete [42] []"
    by (simp add: decode_frame_def pending_def be_value_def)
  then show "try_extract_frame (sample_buffer [0, 0, 0, 1, 42, 0, 0, 0] 5) 65536 =
    (FS_FrameReady, \<lparr>fv_payload = (4, 1), fv_payload_length = 1, fv_total_frame_bytes = 5\<rparr>)"
    by (simp add: try_extract_frame_spec [OF wf])
qed (simp_all add: try_extract_frame_def readable_bytes_def)

lemma sample_stage:
  "stage_response_frame sample_lib r (sample_buffer [0, 0, 0, 0, 0, 0, 0, 0] 0) =
    (True, sample_buffer [0, 0, 0, 2, 7, 7, 0, 0] 6)"
proof -
  have "replicate 2 7 = [7, 7 :: u8]" by (simp add: numeral_2_eq_2)
  moreover have "store32 (htonl 2) = [0, 0, 0, 2]" by (simp add: store_htonl be_bytes_def)
  ultimately show ?thesis
    by (simp add: stage_response_frame_def sample_lib_def kMaxOutboundFrameSize_def int_max_def
        readable_bytes_def reserve_def vec_size_def write_span_def overwrite_def Let_def)
qed

text \<open>The frame is answered when its last two bytes arrive.\<close>

lemma sample_answer:
  fixes s :: os
  assumes rt: "wr_config rt = sample_config" "wr_campaign_store rt = Some store" "store_wf store"
      "wr_benchmark_recorder rt = None"
    and s: "os_log s = []"
  shows "\<exists>rt' s' r. process_ready_frames sample_world rt s
      (sample_cn\<lparr>cn_read_buffer := sample_buffer [0, 0, 0, 1, 42, 0, 0, 0] 5\<rparr>) =
    Some (PF_PauseForWrite, rt', s', sample_cn\<lparr>cn_read_buffer := sample_buffer [0, 0, 0, 1, 42, 0, 0, 0] 0,
      cn_write_buffer := sample_buffer [0, 0, 0, 2, 7, 7, 0, 0] 6, cn_has_pending_write := True\<rparr>) \<and>
    os_log s' = [(1, [42], r)] \<and> wr_config rt' = sample_config \<and> wr_connections rt' = wr_connections rt \<and>
    wr_listen_fd rt' = wr_listen_fd rt \<and> wr_benchmark_recorder rt' = None \<and>
    os_writes s' = os_writes s \<and> os_sent s' = os_sent s"
proof -
  let ?rc = "context_of sample_message 5"
  obtain tm t where h: "handle_request (\<lambda>_. 5) (os_ticks s + 4) sample_message 5 store (wr_rng rt)
      (Some empty_handle_timing) = Some
    (\<lparr>hr_status = handle_status ?rc, hr_context = ?rc, hr_decision = fst (pipeline_decision store ?rc (wr_rng rt)),
      hr_response = build_bid_response ?rc (fst (pipeline_decision store ?rc (wr_rng rt)))\<rparr>,
     snd (pipeline_decision store ?rc (wr_rng rt)), tm, t)"
    using handle_request_pipeline [OF rt(3)] by blast
  have st: "handle_status ?rc = HS_ResponseReady"
    using sample_message_eligible by (simp add: handle_status_def)
  have p: "parse_bid_request sample_lib [42] (wr_parse_scratch rt) = (PS_Ok, \<lparr>request = sample_request\<rparr>, sample_message)"
    by (simp add: parse_bid_request_def sample_lib_def sample_request_def sample_message_def message_of_def
        int_max_def map_auction_type_def AUCTION_TYPE_FIRST_PRICE_def)
  have sp: "read_span (sample_buffer [0, 0, 0, 1, 42, 0, 0, 0] 5) (4, 1) = [42]" by (simp add: read_span_def)
  show ?thesis
    using rt s h st p sp sample_frames(3) sample_stage
    by (simp add: process_ready_frames_def sample_world_def sample_config_def default_WorkerConfig_def
        sample_cn_def empty_connection_def update_client_events_def consume_frame_def Let_def)
qed
definition sample_rest :: "ConnectionState \<Rightarrow> ConnectionState" where
  "sample_rest cn = cn\<lparr>cn_read_buffer := sample_buffer [0, 0, 0, 1, 42, 0, 0, 0] 0,
    cn_write_buffer := sample_buffer [0, 0, 0, 2, 7, 7, 0, 0] 6, cn_has_pending_write := True\<rparr>"

lemma sample_read:
  assumes rt: "wr_config rt = sample_config" "wr_campaign_store rt = Some store" "store_wf store"
      "wr_benchmark_recorder rt = None"
    and s: "os_log s = []" "os_reads s = os_reads sample_os"
  shows "\<exists>rt' s' r. read_loop sample_world rt s sample_cn (os_reads s) =
    Some (False, rt', s', sample_rest sample_cn) \<and>
    os_log s' = [(1, [42], r)] \<and> wr_config rt' = sample_config \<and> wr_connections rt' = wr_connections rt \<and>
    wr_listen_fd rt' = wr_listen_fd rt \<and> wr_benchmark_recorder rt' = None \<and>
    os_writes s' = os_writes s \<and> os_sent s' = os_sent s \<and> os_reads s' = [Rd_EAGAIN]"
proof -
  let ?i = "cn_connection_id sample_cn"
  let ?s1 = "s\<lparr>os_recv := (os_recv s)(1 := os_recv s 1 @ [0, 0, 0])\<rparr>"
  let ?s2 = "s\<lparr>os_recv := (os_recv s)(1 := os_recv s 1 @ [0, 0, 0] @ [1, 42])\<rparr>"
  let ?cn1 = "sample_cn\<lparr>cn_read_buffer := sample_buffer [0, 0, 0, 0, 0, 0, 0, 0] 3\<rparr>"
  let ?cn2 = "sample_cn\<lparr>cn_read_buffer := sample_buffer [0, 0, 0, 1, 42, 0, 0, 0] 5\<rparr>"
  have p1: "process_ready_frames sample_world rt ?s1 ?cn1 = Some (PF_Continue, rt, ?s1, ?cn1)"
    using rt sample_frames(2)
    by (simp add: process_ready_frames_def sample_config_def default_WorkerConfig_def Let_def)
  have "os_log ?s2 = []" using s by simp
  from sample_answer [OF rt this] obtain rt' s' r where p2: "process_ready_frames sample_world rt ?s2 ?cn2 =
    Some (PF_PauseForWrite, rt', s', sample_rest sample_cn)"
    "os_log s' = [(1, [42], r)]" "wr_config rt' = sample_config" "wr_connections rt' = wr_connections rt"
    "wr_listen_fd rt' = wr_listen_fd rt" "wr_benchmark_recorder rt' = None"
    "os_writes s' = os_writes s" "os_sent s' = os_sent s"
    by (auto simp: sample_rest_def)
  have id: "cn_connection_id sample_cn = 1" "cn_read_buffer sample_cn = sample_buffer [0, 0, 0, 0, 0, 0, 0, 0] 0"
    by (simp_all add: sample_cn_def)
  have cn: "sample_cn\<lparr>cn_read_buffer := sample_buffer [0, 0, 0, 0, 0, 0, 0, 0] 0\<rparr> = sample_cn"
    by (simp add: sample_cn_def)
  have "read_loop sample_world rt s sample_cn (os_reads s) = Some (False, rt', s'\<lparr>os_reads := [Rd_EAGAIN]\<rparr>, sample_rest sample_cn)"
    using p1 p2(1)
    by (simp add: s sample_os_def read_loop.simps make_room_def writable_region_def vec_size_def receive_def
        commit_write_def write_span_def overwrite_def id Let_def)
  then show ?thesis using p2 by simp
qed

lemma sample_flush:
  fixes s :: os
  assumes "wr_benchmark_recorder rt = None" "os_writes s = [Wr_Bytes 4, Wr_Bytes 2]" "os_sent s 1 = []"
  shows "\<exists>s' cn'. flush_pending_write sample_world rt s (sample_rest sample_cn) = Some (True, s', cn') \<and>
    \<not> cn_has_pending_write cn' \<and> os_sent s' 1 = [0, 0, 0, 2, 7, 7] \<and> os_log s' = os_log s \<and>
    os_reads s' = os_reads s \<and> cn_read_buffer cn' = sample_buffer [0, 0, 0, 1, 42, 0, 0, 0] 0"
  using assms
  by (simp add: flush_pending_write_def sample_rest_def sample_cn_def readable_bytes_def consume_frame_def
      read_span_def update_client_events_def sample_world_def Let_def)

lemma sample_run:
  assumes start: "worker_setup files sample_startup sample_config sample_world sample_os rt"
  shows "\<exists>rt' s' r. run_worker_loop sample_world rt sample_os sample_batches = Some (0, rt', s') \<and>
    os_log s' = [(1, [42], r)] \<and> os_sent s' 1 = [0, 0, 0, 2, 7, 7] \<and>
    (\<exists>cn. wr_connections rt' 7 = Some cn \<and> \<not> cn_has_pending_write cn \<and>
      cn_read_buffer cn = sample_buffer [0, 0, 0, 1, 42, 0, 0, 0] 0)"
proof -
  have init: "initialize_worker_runtime files sample_startup (empty_runtime sample_config) = (True, rt, {})"
    using start by (simp add: worker_setup_def)
  note i = initialize_success [OF init]
  have "env_ok sample_world rt" by (rule worker_invD(1) [OF worker_setup_inv [OF start]])
  then obtain store where store: "wr_campaign_store rt = Some store" "store_wf store"
    by (auto simp: env_ok_def)
  have rt: "wr_config rt = sample_config" "wr_connections rt = Map.empty" "wr_next_connection_id rt = 1"
    "wr_benchmark_recorder rt = None" "wr_listen_fd rt = 3" "wc_shutdown_fd sample_config = 9"
    using i by (simp_all add: empty_runtime_def sample_startup_def sample_config_def)
  define rt1 where "rt1 = rt\<lparr>wr_next_connection_id := 2, wr_connections := [7 \<mapsto> sample_cn]\<rparr>"
  define s1 where "s1 = sample_os\<lparr>os_ctls := 1, os_interest := [7 \<mapsto> False], os_accepts := []\<rparr>"
  have acc: "process_events sample_world rt sample_os [sample_event 3 False] = Some (False, rt1, s1)"
    using rt sample_accept [of rt]
    by (simp add: sample_event_def rt1_def s1_def) (simp add: sample_os_def)
  have rt1: "wr_config rt1 = sample_config" "wr_campaign_store rt1 = Some store" "wr_benchmark_recorder rt1 = None"
    "wr_connections rt1 = [7 \<mapsto> sample_cn]" "wr_listen_fd rt1 = 3" using rt store by (simp_all add: rt1_def)
  have s1: "os_log s1 = []" "os_reads s1 = os_reads sample_os" "os_writes s1 = [Wr_Bytes 4, Wr_Bytes 2]"
    "os_sent s1 1 = []" by (simp_all add: s1_def sample_os_def)
  have wait: "process_ready_frames sample_world rt1 s1 sample_cn = Some (PF_Continue, rt1, s1, sample_cn)"
    using rt1 sample_frames(1)
    by (simp add: process_ready_frames_def sample_cn_def sample_config_def default_WorkerConfig_def Let_def)
  obtain rt2 s2 r where rd: "read_loop sample_world rt1 s1 sample_cn (os_reads s1) =
      Some (False, rt2, s2, sample_rest sample_cn)"
    "os_log s2 = [(1, [42], r)]" "wr_config rt2 = sample_config" "wr_connections rt2 = wr_connections rt1"
    "wr_listen_fd rt2 = wr_listen_fd rt1" "wr_benchmark_recorder rt2 = None"
    "os_writes s2 = os_writes s1" "os_sent s2 = os_sent s1" "os_reads s2 = [Rd_EAGAIN]"
    using sample_read [OF rt1(1,2) store(2) rt1(3) s1(1,2)] by blast
  define rt3 where "rt3 = put_connection rt2 (sample_rest sample_cn) 7"
  have "\<not> cn_has_pending_write sample_cn" by (simp add: sample_cn_def empty_connection_def)
  then have recv: "process_events sample_world rt1 s1 [sample_event 7 False] = Some (False, rt3, s2)"
    using rt rt1 wait rd by (simp add: sample_event_def handle_client_event_def rt3_def)
  have rt3: "wr_config rt3 = sample_config" "wr_benchmark_recorder rt3 = None" "wr_listen_fd rt3 = 3"
    "wr_connections rt3 7 = Some (sample_rest sample_cn)"
    using rd rt1 by (simp_all add: rt3_def put_connection_def)
  obtain s3 cn where fl: "flush_pending_write sample_world rt3 s2 (sample_rest sample_cn) = Some (True, s3, cn)"
    "\<not> cn_has_pending_write cn" "os_sent s3 1 = [0, 0, 0, 2, 7, 7]" "os_log s3 = os_log s2"
    "os_reads s3 = os_reads s2" "cn_read_buffer cn = sample_buffer [0, 0, 0, 1, 42, 0, 0, 0] 0"
    using sample_flush [of rt3 s2] rt3 rd s1 by auto
  have "process_ready_frames sample_world rt3 s3 cn = Some (PF_Continue, rt3, s3, cn)"
    using rt3 fl(6)
    by (simp add: process_ready_frames_def sample_config_def default_WorkerConfig_def try_extract_frame_def
        readable_bytes_def Let_def)
  moreover have "\<exists>cn'. read_loop sample_world rt3 s3 cn [Rd_EAGAIN] = Some (False, rt3, s3\<lparr>os_reads := []\<rparr>, cn') \<and>
      \<not> cn_has_pending_write cn' \<and> cn_read_buffer cn' = sample_buffer [0, 0, 0, 1, 42, 0, 0, 0] 0"
    using fl(2,6) by (simp add: read_loop.simps make_room_def writable_region_def vec_size_def Let_def)
  moreover have "cn_has_pending_write (sample_rest sample_cn)" by (simp add: sample_rest_def)
  ultimately have "\<exists>rt4 s4. process_events sample_world rt3 s2 [sample_event 7 True, sample_event 9 False] =
      Some (True, rt4, s4) \<and> os_sent s4 1 = [0, 0, 0, 2, 7, 7] \<and> os_log s4 = os_log s2 \<and>
      (\<exists>cn. wr_connections rt4 7 = Some cn \<and> \<not> cn_has_pending_write cn \<and>
        cn_read_buffer cn = sample_buffer [0, 0, 0, 1, 42, 0, 0, 0] 0)"
    using rt rt3 fl rd(9)
    by (auto simp: sample_event_def handle_client_event_def put_connection_def)
  then show ?thesis
    using acc recv rd(2) by (auto simp: sample_batches_def)
qed

section \<open>A run of the server\<close>

definition sample_env :: server_env where
  "sample_env = \<lparr>se_files = (\<lambda>_. Some sample_csv), se_eventfd = 9, se_sigint_ok = True, se_sigterm_ok = True,
    se_startup = (\<lambda>_. sample_startup), se_world = (\<lambda>_. sample_world), se_os = (\<lambda>_. sample_os),
    se_ldp = 64, se_now = 1750000000, se_json_opens = True\<rparr>"

definition sample_process :: process where
  "sample_process = \<lparr>pr_sigint = Sig_Previous 1, pr_sigterm = Sig_Previous 2, pr_event_fd = -1,
    pr_shutdown_requested = False\<rparr>"

definition sample_server_config :: ServerConfig where
  "sample_server_config = empty_ServerConfig\<lparr>sc_workers := 1, sc_benchmark := True\<rparr>"

lemma sample_env_simps:
  "se_files sample_env = (\<lambda>_. Some sample_csv)" "se_eventfd sample_env = 9"
  "se_startup sample_env i = sample_startup" "se_world sample_env i = sample_world" "se_os sample_env i = sample_os"
  "se_sigint_ok sample_env" "se_sigterm_ok sample_env"
  by (simp_all add: sample_env_def)

lemma sample_environment_ok: "environment_ok sample_env"
proof -
  have "store_fits store" if "load_campaign_store_snapshot (\<lambda>_. Some sample_csv) path = Some store" for path store
    using sample_load [of path] that by (auto simp: store_fits_def max_vec_def)
  then show ?thesis
    using sample_lib_serializes
    by (simp add: environment_ok_def descriptors_ok_def sample_env_simps sample_startup_def sample_world_def
        untouched_def sample_os_def)
qed

lemma sample_store: "\<exists>store. load_campaign_store_snapshot (\<lambda>_. Some sample_csv) path = Some store"
  using sample_load [of path] by blast

text \<open>A signal arrives, and the worker's loop ends at the shutdown event.\<close>

lemma sample_server_run:
  "\<exists>p' gone sv out file. run_server sample_env sample_process sample_server_config
      [Ev_Signal, Ev_Batch 0 (Some [sample_event 9 False])] = Some (0, p', gone, Some (sv, out, file)) \<and>
    length (sv_workers sv) = 1"
proof -
  obtain store where store: "load_campaign_store_snapshot (\<lambda>_. Some sample_csv)
      (sc_campaign_data_path sample_server_config) = Some store" using sample_store by blast
  let ?rt = "fresh_runtime sample_env sample_server_config store (make_recorder sample_server_config) 0"
  obtain rt where init: "initialize_worker_runtime (\<lambda>_. Some sample_csv) sample_startup ?rt = (True, rt, {})"
    by (simp add: initialize_worker_runtime_def fresh_runtime_owns sample_startup_def Let_def)
  note i = initialize_success [OF init]
  have rts: "start_workers sample_env sample_server_config store (make_recorder sample_server_config)
      (Suc 0) [] = Inl [rt]"
    using init by (simp add: start_workers_Suc sample_env_simps)
  have rt: "wc_shutdown_fd (wr_config rt) = 9" "wr_listen_fd rt = 3"
    using i by (simp_all add: fresh_runtime_owns worker_config_def sample_env_simps sample_startup_def)
  have mk: "make_recorder sample_server_config = Some (new_recorder 0)"
    by (simp add: make_recorder_def sample_server_config_def empty_ServerConfig_def)
  obtain summary where "print_summary 64 (new_recorder 0) = Some summary"
    using summarize_defined [of "new_recorder 0" 64] by (auto simp: print_summary_def new_recorder_def)
  then have "report_benchmark sample_env sample_server_config (Some (new_recorder 0)) = Some (summary, None)"
    by (simp add: report_benchmark_def sample_server_config_def empty_ServerConfig_def sample_env_def)
  then show ?thesis
    using store rts rt mk
    by (auto simp: run_server_def sample_env_simps sample_process_def install_signal_handlers_def
        sample_server_config_def server_step_def handle_shutdown_signal_def request_shutdown_def
        sample_event_def empty_ServerConfig_def start_state_def Let_def)
qed

end
