(* ===== verification/Rtb_Main.thy ===== *)
theory Rtb_Main
  imports Rtb_Log Rtb_Sample
begin

text \<open>
  The program: \<open>src/main.cc\<close> and \<open>print_server_usage\<close> of \<open>src/server.cc\<close>. A run yields the
  exit code, the signal state of the process, the text on standard output and on standard
  error (the log lines of running workers apart), and the report file. The lemmas tie the exit code to what happened.
\<close>

section \<open>The code\<close>

definition print_server_usage :: "string \<Rightarrow> string" where
  "print_server_usage program_name =
    ''Usage: '' @ program_name @ '' [--port PORT] [--workers COUNT] '' @
    ''[--campaign-data-path PATH] [--benchmark] [--benchmark-json PATH] '' @
    ''[--benchmark-requests COUNT] [--benchmark-duration-ms MS]'' @ nl"

record main_result =
  mr_exit_code :: int
  mr_process :: process
  mr_stdout :: string
  mr_stderr :: string
  mr_written :: "(string \<times> string) option"

text \<open>\<open>argv\<close> is the program's name and the list of its arguments.\<close>

definition run_main ::
  "server_env \<Rightarrow> string \<Rightarrow> process \<Rightarrow> string \<Rightarrow> string list \<Rightarrow> server_event list \<Rightarrow> main_result option" where
  "run_main env project_dir p argv0 args evs =
    (let (parse_status, config, err) = parse_server_config project_dir args in
     case parse_status of
       SC_HelpRequested \<Rightarrow> Some
         \<lparr>mr_exit_code = 0, mr_process = p, mr_stdout = print_server_usage argv0, mr_stderr = '''',
          mr_written = None\<rparr>
     | SC_InvalidArgument \<Rightarrow> Some
         \<lparr>mr_exit_code = 1, mr_process = p, mr_stdout = '''',
          mr_stderr = ''Error: '' @ err @ nl @ print_server_usage argv0, mr_written = None\<rparr>
     | SC_Ok \<Rightarrow>
         (case run_server env p config evs of
            None \<Rightarrow> None
          | Some (exit_code, p', _, served) \<Rightarrow> Some
              \<lparr>mr_exit_code = exit_code, mr_process = p',
               mr_stdout = (case served of None \<Rightarrow> '''' | Some (_, out, _) \<Rightarrow> out),
               mr_stderr = (case served of None \<Rightarrow> server_log env p config
                 | Some (sv, _, _) \<Rightarrow> report_log env config (sv_recorder sv)),
               mr_written = (case served of None \<Rightarrow> None | Some (_, _, written) \<Rightarrow> written)\<rparr>))"

section \<open>Properties\<close>

text \<open>
  C21. The exit code tells what happened: it is zero exactly when the help was asked for or the
  server came up, said so and ended, and one otherwise; an invalid command line is answered
  with the error and the usage on standard error, a refused start with its log, which is empty
  only if the socket of a worker could not be opened; a report file is written only by a
  benchmark run, and one that was asked for and not written is reported; and in every case the process has the signal handlers it started with.
\<close>

theorem exit_code_tells_outcome:
  assumes "environment_ok env" and "run_main env dir p argv0 args evs = Some r"
  shows "(mr_exit_code r = 0 \<or> mr_exit_code r = 1) \<and>
    pr_sigint (mr_process r) = pr_sigint p \<and> pr_sigterm (mr_process r) = pr_sigterm p \<and>
    (mr_exit_code r = 0 \<longleftrightarrow> mr_stdout r \<noteq> []) \<and>
    (case parse_server_config dir args of
       (SC_HelpRequested, c, err) \<Rightarrow> mr_stdout r = print_server_usage argv0 \<and> mr_stderr r = [] \<and> mr_written r = None
     | (SC_InvalidArgument, c, err) \<Rightarrow> mr_exit_code r = 1 \<and> mr_written r = None \<and>
         mr_stderr r = ''Error: '' @ err @ nl @ print_server_usage argv0
     | (SC_Ok, c, err) \<Rightarrow>
         (if mr_exit_code r = 0
          then mr_stderr r =
              (if sc_benchmark c \<and> sc_benchmark_json_path c \<noteq> [] \<and> mr_written r = None
               then LOG_ERROR (''Failed writing benchmark JSON to '' @ sc_benchmark_json_path c) else []) \<and>
            (\<exists>report. mr_stdout r = listening_line c @ report \<and>
            (sc_benchmark c \<or> report = [] \<and> mr_written r = None))
          else mr_written r = None \<and> mr_stderr r = server_log env p c \<and>
            (mr_stderr r \<noteq> [] \<or> (\<exists>i. i < nat (sc_workers c) \<and> su_socket (se_startup env i) = -1))))"
proof -
  obtain st c err where pc: "parse_server_config dir args = (st, c, err)" by (metis prod_cases3)
  show ?thesis
  proof (cases st)
    case SC_Ok
    then obtain code p' gone served where run: "run_server env p c evs = Some (code, p', gone, served)"
      and r: "r = \<lparr>mr_exit_code = code, mr_process = p',
        mr_stdout = (case served of None \<Rightarrow> [] | Some (_, out, _) \<Rightarrow> out),
        mr_stderr = (case served of None \<Rightarrow> server_log env p c | Some (sv, _, _) \<Rightarrow> report_log env c (sv_recorder sv)),
        mr_written = (case served of None \<Rightarrow> None | Some (_, _, written) \<Rightarrow> written)\<rparr>"
      using assms(2) pc by (auto simp: run_main_def split: option.splits prod.splits)
    show ?thesis
    proof (cases served)
      case None
      then show ?thesis
        using run_server_refused [of env p c evs code p' gone] server_log_refused [of env p c evs code p' gone]
          run r pc SC_Ok by simp
    next
      case (Some a)
      then obtain sv out written where a: "served = Some (sv, out, written)" by (cases a) auto
      note fin = run_server_finished [OF assms(1) run [unfolded a]]
      then obtain report where rep: "report_benchmark env c (sv_recorder sv) = Some (report, written)"
        "out = listening_line c @ report" by blast
      have "sc_benchmark c \<or> report = [] \<and> written = None"
        using rep(1) fin(7) by (cases "sv_recorder sv") (auto simp: report_benchmark_def)
      moreover have "out \<noteq> []" by (simp add: rep(2) listening_line_def)
      moreover have "report_log env c (sv_recorder sv) =
          (if sc_benchmark c \<and> sc_benchmark_json_path c \<noteq> [] \<and> written = None
           then LOG_ERROR (''Failed writing benchmark JSON to '' @ sc_benchmark_json_path c) else [])"
        using report_log_written [OF rep(1)] fin(7) by simp
      ultimately show ?thesis using r a fin(1-3) rep(2) pc SC_Ok by auto
    qed
  qed (use assms(2) pc in \<open>auto simp: run_main_def print_server_usage_def\<close>)
qed

theorem exit_code_tells_outcome_witness:
  "\<exists>r. run_main sample_env [] sample_process ''rtb_engine'' [''--port''] [] = Some r \<and> mr_exit_code r = 1 \<and>
    mr_stderr r = ''Error: missing value for --port'' @ nl @ print_server_usage ''rtb_engine''"
proof -
  have pc: "\<exists>c. parse_server_config [] [''--port''] = (SC_InvalidArgument, c, ''missing value for --port'')"
    by (simp add: parse_server_config_def config_loop.simps(2))
  then obtain r where r: "run_main sample_env [] sample_process ''rtb_engine'' [''--port''] [] = Some r"
    by (auto simp: run_main_def)
  from exit_code_tells_outcome [OF sample_environment_ok r] pc r show ?thesis by auto
qed

end
