(* ===== verification/Rtb_Bench.thy ===== *)
theory Rtb_Bench
  imports Rtb_Handle Rtb_Report
begin

text \<open>
  The in-process benchmark, \<open>bench/request_pipeline_bench.cc\<close>: its arguments, the request it
  builds, and its loop over the pipeline without sockets. The library is a parameter as in the
  worker, with the serialisation of requests added. The lemmas show that a run over a loaded
  store with a library that reads back what it wrote answers every request and records
  exactly those after the warm-up.
\<close>

section \<open>Arguments\<close>

record bench_options =
  bo_warmup :: u64
  bo_count :: u64
  bo_seed :: u64
  bo_campaign_data_path :: string

definition default_bench_options :: "string \<Rightarrow> bench_options" where
  "default_bench_options project_dir =
    \<lparr>bo_warmup = 1000, bo_count = 10000, bo_seed = 12345,
     bo_campaign_data_path = project_dir @ ''/data/sample_campaigns.csv''\<rparr>"

text \<open>
  \<open>parse_u64\<close> of the benchmark stores what \<open>std::from_chars\<close> read, so a number followed by other
  characters counts; its result is ignored by the callers.
\<close>

definition bench_parse_u64 :: "string \<Rightarrow> u64 \<Rightarrow> bool \<times> u64" where
  "bench_parse_u64 txt out =
    (let (ec, ptr, stored) = from_chars_u64 txt
     in (ec = EC_ok \<and> ptr = length txt, case stored of None \<Rightarrow> out | Some v \<Rightarrow> v))"

text \<open>The loop over the arguments; \<open>None\<close> when the help text is printed.\<close>

function bench_args :: "bench_options \<Rightarrow> string list \<Rightarrow> bench_options option" where
  "bench_args opts [] = Some opts"
| "bench_args opts (arg # rest) =
    (if arg = ''--warmup'' \<and> rest \<noteq> []
     then bench_args (opts\<lparr>bo_warmup := snd (bench_parse_u64 (hd rest) (bo_warmup opts))\<rparr>) (tl rest)
     else if arg = ''--count'' \<and> rest \<noteq> []
     then bench_args (opts\<lparr>bo_count := snd (bench_parse_u64 (hd rest) (bo_count opts))\<rparr>) (tl rest)
     else if arg = ''--seed'' \<and> rest \<noteq> []
     then bench_args (opts\<lparr>bo_seed := snd (bench_parse_u64 (hd rest) (bo_seed opts))\<rparr>) (tl rest)
     else if arg = ''--campaign-data-path'' \<and> rest \<noteq> []
     then bench_args (opts\<lparr>bo_campaign_data_path := hd rest\<rparr>) (tl rest)
     else if arg = ''--help'' then None
     else bench_args opts rest)"
  by pat_completeness auto
termination
  by (relation "measure (\<lambda>(opts, args). length args)") auto

declare bench_args.simps(2) [simp del]

section \<open>The loop\<close>

record bench_lib =
  bl_proto :: proto_lib
  bl_SerializeAsString :: "BidRequest \<Rightarrow> u8 list"

definition bench_request :: "u64 \<Rightarrow> BidRequest" where
  "bench_request request_index =
    \<lparr>rq_request_id = ''bench-req-'' @ to_string request_index, rq_tmax_ms = 100, rq_country = ''US'',
     rq_device_type = ''desktop'', rq_ad_slot = ''homepage-top'', rq_auction_type = AUCTION_TYPE_FIRST_PRICE\<rparr>"

definition build_framed_request :: "bench_lib \<Rightarrow> u64 \<Rightarrow> u8 list" where
  "build_framed_request lib request_index =
    (let payload = bl_SerializeAsString lib (bench_request request_index);
         framed = replicate (4 + length payload) 0;
         payload_size = htonl (word_of_nat (length payload));
         framed = overwrite framed 0 (store32 payload_size)
     in overwrite framed 4 payload)"

record bench_state =
  be_scratch :: ParseScratch
  be_rng :: WorkerRng
  be_write_buffer :: ReusableBuffer
  be_recorder :: BenchmarkRecorder
  be_ticks :: nat

definition bench_start :: "u64 \<Rightarrow> bench_state" where
  "bench_start sd =
    \<lparr>be_scratch = \<lparr>request = empty_BidRequest\<rparr>, be_rng = seed default_rng sd,
     be_write_buffer = empty_buffer, be_recorder = new_recorder 0, be_ticks = 0\<rparr>"

text \<open>One round: the exit code of a failure or the new state; \<open>None\<close> for undefined behaviour.\<close>

definition bench_round ::
  "bench_lib \<Rightarrow> clock \<Rightarrow> CampaignStoreSnapshot \<Rightarrow> u64 \<Rightarrow> bench_state \<Rightarrow> u64 \<Rightarrow> (int + bench_state) option" where
  "bench_round lib clock campaign_store warmup st request_index =
    (let framed_request = build_framed_request lib (request_index + 1);
         payload = drop 4 framed_request;
         t = be_ticks st;
         (parse_status, scratch, parsed_message) =
           parse_bid_request (bl_proto lib) payload (be_scratch st) in
     if parse_status \<noteq> PS_Ok then Some (Inl 1)
     else
       case handle_request clock (t + 4) parsed_message (clock (t + 3)) campaign_store (be_rng st)
           (Some empty_handle_timing) of
         None \<Rightarrow> None
       | Some (result, rng, handle_timing, t') \<Rightarrow>
         if hr_status result = HS_DropConnection then Some (Inl 1)
         else
           let ht = the handle_timing;
               (staged, write_buffer) =
                 stage_response_frame (bl_proto lib) (hr_response result) (be_write_buffer st) in
           if \<not> staged then Some (Inl 1)
           else
             let timing =
                   \<lparr>rt_parse_ns = clock (t + 2) - clock (t + 1),
                    rt_normalize_validate_ns = ht_normalize_validate_ns ht,
                    rt_retrieve_ns = ht_retrieve_ns ht, rt_decide_ns = ht_decide_ns ht,
                    rt_response_build_ns = ht_response_build_ns ht,
                    rt_response_stage_ns = clock (t' + 1) - clock t',
                    rt_total_internal_ns = clock (t' + 1) - clock t\<rparr>;
                 write_buffer = write_buffer\<lparr>read_offset := 0, write_offset := 0\<rparr>;
                 recorder = (if request_index \<ge> warmup then record_request (be_recorder st) timing
                             else be_recorder st) in
             Some (Inr \<lparr>be_scratch = scratch, be_rng = rng, be_write_buffer = write_buffer,
               be_recorder = recorder, be_ticks = t' + 2\<rparr>))"

lemma word_successor:
  fixes i n :: u64
  assumes "i < n"
  shows "unat (i + 1) = Suc (unat i)"
  using assms unsigned_less [of n, where 'a = nat] by (simp add: word_less_nat_alt unat_word_ariths)

function bench_loop ::
  "bench_lib \<Rightarrow> clock \<Rightarrow> CampaignStoreSnapshot \<Rightarrow> u64 \<Rightarrow> u64 \<Rightarrow> bench_state \<Rightarrow> u64 \<Rightarrow>
    (int + bench_state) option" where
  "bench_loop lib clock campaign_store warmup total_iterations st request_index =
    (if \<not> request_index < total_iterations then Some (Inr st)
     else
       case bench_round lib clock campaign_store warmup st request_index of
         None \<Rightarrow> None
       | Some (Inl code) \<Rightarrow> Some (Inl code)
       | Some (Inr st) \<Rightarrow>
           bench_loop lib clock campaign_store warmup total_iterations st (request_index + 1))"
  by pat_completeness auto
termination
  by (relation "measure (\<lambda>(lib, clock, store, warmup, n, st, i). unat n - unat i)")
     (auto simp: word_successor word_less_nat_alt)

declare bench_loop.simps [simp del]

section \<open>The program\<close>

text \<open>Exit code, standard output and the final recorder.\<close>

definition bench_usage :: string where
  "bench_usage = ''Usage: rtb_inproc_bench [--warmup N] [--count N] [--seed N] '' @
    ''[--campaign-data-path PATH]'' @ nl"

definition bench_main ::
  "bench_lib \<Rightarrow> clock \<Rightarrow> nat \<Rightarrow> (string \<Rightarrow> string option) \<Rightarrow> string \<Rightarrow> string list \<Rightarrow>
    (int \<times> string \<times> BenchmarkRecorder option) option" where
  "bench_main lib clock ldp files project_dir args =
    (case bench_args (default_bench_options project_dir) args of
       None \<Rightarrow> Some (0, bench_usage, None)
     | Some opts \<Rightarrow>
       (case load_campaign_store_snapshot files (bo_campaign_data_path opts) of
          None \<Rightarrow> Some (1, '''', None)
        | Some campaign_store \<Rightarrow>
          (case bench_loop lib clock campaign_store (bo_warmup opts) (bo_warmup opts + bo_count opts)
              (bench_start (bo_seed opts)) 0 of
             None \<Rightarrow> None
           | Some (Inl code) \<Rightarrow> Some (code, '''', None)
           | Some (Inr st) \<Rightarrow>
               map_option (\<lambda>summary. (0, summary, Some (be_recorder st)))
                 (print_summary ldp (be_recorder st)))))"

section \<open>What the library promises\<close>

text \<open>
  It reads back the benchmark requests it wrote, and a response with a request id and short
  texts has at least one byte and fits a frame. (A response whose fields all have their default
  values is serialised to no bytes; the benchmark never builds one.)
\<close>

definition reads_back :: "bench_lib \<Rightarrow> bool" where
  "reads_back lib \<longleftrightarrow>
    (\<forall>i target. length (bl_SerializeAsString lib (bench_request i)) \<le> int_max \<and>
      ParseFromArray (bl_proto lib) (bl_SerializeAsString lib (bench_request i)) target = (True, bench_request i))"

definition short_responses_fit :: "proto_lib \<Rightarrow> bool" where
  "short_responses_fit lib \<longleftrightarrow>
    (\<forall>r. rs_request_id r \<noteq> [] \<longrightarrow> length (rs_request_id r) \<le> 30 \<longrightarrow> length (rs_campaign_id r) \<le> 20 \<longrightarrow>
      length (rs_creative_id r) \<le> 20 \<longrightarrow> stageable lib r)"

section \<open>Lemmas\<close>

lemma nat_to_string_length: "n < 10 ^ k \<Longrightarrow> 0 < k \<Longrightarrow> length (nat_to_string n) \<le> k"
proof (induction k arbitrary: n)
  case (Suc k)
  show ?case
  proof (cases "n < 10")
    case True
    then show ?thesis by (subst nat_to_string.simps) simp
  next
    case False
    then have "0 < k" using Suc.prems by (cases k) auto
    moreover have "n div 10 < 10 ^ k" using Suc.prems by (simp add: less_mult_imp_div_less mult.commute)
    ultimately have "length (nat_to_string (n div 10)) \<le> k" by (rule Suc.IH [rotated])
    then show ?thesis using False by (subst nat_to_string.simps) simp
  qed
qed simp

lemma to_string_length: "length (to_string w) \<le> 20"
proof -
  have "unat w < 2 ^ 64" using unsigned_less [of w, where 'a = nat] by simp
  also have "(2::nat) ^ 64 < 10 ^ 20" by simp
  finally show ?thesis by (simp add: to_string_def nat_to_string_length)
qed

lemma framed_payload: "drop 4 (build_framed_request lib i) = bl_SerializeAsString lib (bench_request i)"
  by (simp add: build_framed_request_def overwrite_def store32_def Let_def)

lemma bench_request_complete: "complete_request (bench_request i)"
  by (simp add: complete_request_def bench_request_def AUCTION_TYPE_FIRST_PRICE_def)

lemma bench_request_valid: "context_valid (build_request_context (message_of (bench_request i)) now)"
proof -
  have "normalize_country_key ''US'' \<noteq> 0" "normalize_device_type_key ''desktop'' \<noteq> DT_Unknown"
    "normalize_ad_slot_key ''homepage-top'' \<noteq> 0"
    by code_simp+
  then show ?thesis
    by (simp add: context_valid_def build_request_context_def message_of_def bench_request_def
        AUCTION_TYPE_FIRST_PRICE_def Let_def)
qed

text \<open>A round never fails: it answers the request and records it after the warm-up.\<close>

lemma bench_round_ok:
  assumes store: "store_wf store" and lib: "serializes (bl_proto lib)" "reads_back lib"
      "short_responses_fit (bl_proto lib)"
    and st: "buffer_wf (be_write_buffer st)" "pending (be_write_buffer st) = []"
  shows "\<exists>st'. bench_round lib clock store warmup st i = Some (Inr st') \<and>
    buffer_wf (be_write_buffer st') \<and> pending (be_write_buffer st') = [] \<and>
    length (br_requests (be_recorder st')) = length (br_requests (be_recorder st)) + (if i \<ge> warmup then 1 else 0)"
proof -
  let ?rq = "bench_request (i + 1)" and ?p = "bl_SerializeAsString lib (bench_request (i + 1))"
  define pm where "pm = message_of ?rq"
  have parse: "fst (parse_bid_request (bl_proto lib) ?p (be_scratch st)) = PS_Ok"
    "snd (snd (parse_bid_request (bl_proto lib) ?p (be_scratch st))) = pm"
    using lib(2) bench_request_complete [of "i + 1"]
    by (auto simp: parse_ok_iff parse_result reads_back_def pm_def)
  then obtain scratch where p: "parse_bid_request (bl_proto lib) ?p (be_scratch st) = (PS_Ok, scratch, pm)"
    by (metis prod.collapse)
  let ?rc = "context_of pm (clock (be_ticks st + 3))"
  let ?d = "fst (pipeline_decision store ?rc (be_rng st))"
  let ?r = "build_bid_response ?rc ?d"
  obtain ht t' where h: "handle_request clock (be_ticks st + 4) pm (clock (be_ticks st + 3)) store (be_rng st)
      (Some empty_handle_timing) = Some
    (\<lparr>hr_status = handle_status ?rc, hr_context = ?rc, hr_decision = ?d, hr_response = ?r\<rparr>,
     snd (pipeline_decision store ?rc (be_rng st)), ht, t')"
    using handle_request_pipeline [OF store] by blast
  have "pm_processing_status pm = RP_Ok" by (simp add: pm_def message_of_def)
  then have status: "handle_status ?rc = HS_ResponseReady"
    using handle_status_drop bench_request_valid [of "i + 1"] unfolding pm_def
    by (metis HandleRequestStatus.exhaust)
  have "rc_request_id ?rc = ''bench-req-'' @ to_string (i + 1)"
    by (simp add: context_of_def build_request_context_def pm_def message_of_def bench_request_def Let_def)
  then have "stageable (bl_proto lib) ?r"
    using lib(3) to_string_length [of "i + 1"] to_string_length [of "bd_campaign_id ?d"]
      to_string_length [of "bd_creative_id ?d"]
    by (auto simp: short_responses_fit_def build_response_fields)
  then obtain wb where wb: "stage_response_frame (bl_proto lib) ?r (be_write_buffer st) = (True, wb)" "buffer_wf wb"
    using stage_response_frame_spec(1,2) [OF st(1) lib(1), of ?r] st(2)
    by (metis prod.collapse)
  have "buffer_wf (wb\<lparr>read_offset := 0, write_offset := 0\<rparr>)" "pending (wb\<lparr>read_offset := 0, write_offset := 0\<rparr>) = []"
    using wb(2) by (auto simp: buffer_wf_def pending_def)
  then show ?thesis
    using p h status wb(1) by (simp add: bench_round_def framed_payload record_request_def Let_def)
qed

lemma bench_loop_ok:
  assumes store: "store_wf store" and lib: "serializes (bl_proto lib)" "reads_back lib"
      "short_responses_fit (bl_proto lib)"
    and st: "buffer_wf (be_write_buffer st)" "pending (be_write_buffer st) = []"
  shows "\<exists>st'. bench_loop lib clock store warmup n st i = Some (Inr st') \<and>
    length (br_requests (be_recorder st')) =
      length (br_requests (be_recorder st)) + (unat n - max (unat i) (unat warmup))"
  using st
proof (induction "unat n - unat i" arbitrary: st i)
  case 0
  then have "\<not> i < n" by (simp add: word_less_nat_alt)
  moreover from this have "unat n - max (unat i) (unat warmup) = 0" by (simp add: word_less_nat_alt)
  ultimately show ?case by (simp add: bench_loop.simps)
next
  case (Suc d)
  then have less: "i < n" by (simp add: word_less_nat_alt)
  note step = word_successor [OF less]
  obtain st' where st': "bench_round lib clock store warmup st i = Some (Inr st')"
    "buffer_wf (be_write_buffer st')" "pending (be_write_buffer st') = []"
    "length (br_requests (be_recorder st')) = length (br_requests (be_recorder st)) + (if i \<ge> warmup then 1 else 0)"
    using bench_round_ok [OF store lib Suc.prems] by blast
  have "d = unat n - unat (i + 1)" using Suc.hyps(2) step by simp
  from Suc.hyps(1) [OF this st'(2,3)] obtain st2 where
    st2: "bench_loop lib clock store warmup n st' (i + 1) = Some (Inr st2)"
    "length (br_requests (be_recorder st2)) =
      length (br_requests (be_recorder st')) + (unat n - max (unat (i + 1)) (unat warmup))" by blast
  have "bench_loop lib clock store warmup n st i = Some (Inr st2)"
    using less st'(1) st2(1) by (simp add: bench_loop.simps [of _ _ _ _ _ st i])
  moreover have "(if i \<ge> warmup then 1 else 0) + (unat n - max (unat (i + 1)) (unat warmup)) =
      unat n - max (unat i) (unat warmup)"
    using step less by (auto simp: word_less_nat_alt word_le_nat_alt)
  ultimately show ?case using st2(2) st'(4) by (simp only: add.assoc) blast
qed

section \<open>Properties\<close>

text \<open>
  C28. The in-process benchmark completes: over a store that loads, with a library that reads
  back what it wrote, every round is answered without undefined behaviour, the program exits
  with zero, and the summary it prints is that of exactly the rounds after the warm-up.
\<close>

theorem bench_completes:
  assumes "serializes (bl_proto lib)" and "reads_back lib" and "short_responses_fit (bl_proto lib)"
    and "bench_args (default_bench_options dir) args = Some opts"
    and "load_campaign_store_snapshot files (bo_campaign_data_path opts) = Some store" and "store_fits store"
    and "unat (bo_warmup opts) + unat (bo_count opts) < 2 ^ 64" and "unat (bo_count opts) \<le> 2 ^ 53"
  shows "\<exists>summary b. bench_main lib clock ldp files dir args = Some (0, summary, Some b) \<and>
    length (br_requests b) = unat (bo_count opts) \<and> print_summary ldp b = Some summary"
proof -
  let ?st = "bench_start (bo_seed opts)" and ?n = "bo_warmup opts + bo_count opts"
  have n: "unat ?n = unat (bo_warmup opts) + unat (bo_count opts)"
    using assms(7) by (simp add: unat_word_ariths)
  have st: "buffer_wf (be_write_buffer ?st)" "pending (be_write_buffer ?st) = []"
    by (simp_all add: bench_start_def buffer_wf_empty)
  obtain st where st': "bench_loop lib clock store (bo_warmup opts) ?n ?st 0 = Some (Inr st)"
    "length (br_requests (be_recorder st)) = unat (bo_count opts)"
    using bench_loop_ok [OF load_store_wf [OF assms(5,6)] assms(1-3) st, of clock "bo_warmup opts" ?n 0] n
    by (auto simp: bench_start_def new_recorder_def)
  obtain summary where "print_summary ldp (be_recorder st) = Some summary"
    using summarize_defined [of "be_recorder st" ldp] st'(2) assms(8) by (auto simp: print_summary_def)
  then show ?thesis using assms(4,5) st' by (simp add: bench_main_def)
qed

definition sample_bench_lib :: bench_lib where
  "sample_bench_lib =
    \<lparr>bl_proto = \<lparr>ParseFromArray = (\<lambda>bs rq. (True, (bench_request 0)\<lparr>rq_request_id := map (\<lambda>b. char_of (unat b)) bs\<rparr>)),
       ByteSizeLong = (\<lambda>r. 2), SerializeToArray = (\<lambda>r n. (True, replicate (unat n) 7))\<rparr>,
     bl_SerializeAsString = (\<lambda>rq. map byte_of (rq_request_id rq))\<rparr>"

lemma sample_bench_lib_ok:
  "serializes (bl_proto sample_bench_lib)" "reads_back sample_bench_lib"
  "short_responses_fit (bl_proto sample_bench_lib)"
proof -
  show "serializes (bl_proto sample_bench_lib)" "short_responses_fit (bl_proto sample_bench_lib)"
    by (simp_all add: serializes_def short_responses_fit_def stageable_def sample_bench_lib_def)
  have "length (to_string i) \<le> 2147483637" for i using to_string_length [of i] by simp
  then show "reads_back sample_bench_lib"
    by (simp add: reads_back_def sample_bench_lib_def bench_request_def int_max_def char_of_byte o_def)
qed

text \<open>A count followed by other characters is taken as the number it begins with.\<close>

theorem bench_completes_witness:
  "\<exists>summary b. bench_main sample_bench_lib (\<lambda>_. 5) 64 (\<lambda>_. Some sample_csv) []
      [''--warmup'', ''2'', ''--count'', ''3x''] = Some (0, summary, Some b) \<and> length (br_requests b) = 3"
proof -
  let ?opts = "(default_bench_options [])\<lparr>bo_warmup := 2, bo_count := 3\<rparr>"
  have num: "snd (bench_parse_u64 ''2'' w) = 2" "snd (bench_parse_u64 ''3x'' w) = 3" for w
    by (simp_all add: bench_parse_u64_def from_chars_u64_def is_digit_def digits_value_def digit_value_def Let_def)
  have args: "bench_args (default_bench_options []) [''--warmup'', ''2'', ''--count'', ''3x''] = Some ?opts"
    by (simp add: bench_args.simps(2) num)
  obtain store where store: "load_campaign_store_snapshot (\<lambda>_. Some sample_csv) (bo_campaign_data_path ?opts) = Some store"
    "store_fits store"
    using sample_load [of "bo_campaign_data_path ?opts"] by (auto simp: store_fits_def max_vec_def)
  from bench_completes [OF sample_bench_lib_ok args store, where clock = "\<lambda>_. 5" and ldp = 64] show ?thesis
    by auto
qed

end
