(* ===== verification/Rtb_Progress.thy ===== *)
theory Rtb_Progress
  imports Rtb_Worker_Inv
begin

text \<open>
  Progress of the worker: a handler only ever waits for the kernel. With any results that keep
  the contract of \<open>read\<close>, \<open>write\<close> and \<open>accept4\<close> (at least one byte and at most as many as asked
  for, in whatever pieces; interrupts, errors, the end of the stream; new descriptors that are
  not in use) and a final "try again", every event of a worker in its invariant is processed to
  its end, without undefined behaviour in any component it runs through.
\<close>

section \<open>What the kernel gives\<close>

text \<open>
  The contract of \<open>read\<close> for a worker that reads into the buffer \<open>b\<close>: a result with bytes holds
  at least one and at most as many as the buffer had room for at that call.
\<close>

fun reads_within :: "ReusableBuffer \<Rightarrow> sys_read list \<Rightarrow> bool" where
  "reads_within b [] \<longleftrightarrow> True"
| "reads_within b (r # rs) \<longleftrightarrow>
    (let b = make_room b; room = snd (writable_region b) in
     if room = 0 then True
     else
       case r of
         Rd_Bytes bs \<Rightarrow> bs \<noteq> [] \<and> length bs \<le> unat room \<and> reads_within (receive b bs) rs
       | Rd_EINTR \<Rightarrow> reads_within b rs
       | _ \<Rightarrow> True)"

text \<open>
  The contract of \<open>write\<close> with \<open>n\<close> bytes to send: at least one and at most all of them are taken.
  The client has not closed the connection, so there is no \<open>SIGPIPE\<close>.
\<close>

fun writes_within :: "nat \<Rightarrow> sys_write list \<Rightarrow> bool" where
  "writes_within n [] \<longleftrightarrow> True"
| "writes_within n (r # ws) \<longleftrightarrow>
    (if n = 0 then True
     else
       case r of
         Wr_Bytes k \<Rightarrow> 0 < k \<and> k \<le> n \<and> writes_within (n - k) ws
       | Wr_EINTR \<Rightarrow> writes_within n ws
       | Wr_SIGPIPE \<Rightarrow> False
       | _ \<Rightarrow> True)"

declare reads_within.simps(2) [simp del]

text \<open>The kernel side of a state with these results to come.\<close>

definition offer :: "os \<Rightarrow> sys_read list \<Rightarrow> sys_write list \<Rightarrow> nat list \<Rightarrow> os" where
  "offer s rs ws fds =
    s\<lparr>os_reads := rs @ [Rd_EAGAIN], os_writes := ws @ [Wr_EAGAIN],
      os_accepts := map Ac_Fd fds @ [Ac_EAGAIN]\<rparr>"

lemma offer_sel [simp]:
  "os_reads (offer s rs ws fds) = rs @ [Rd_EAGAIN]" "os_writes (offer s rs ws fds) = ws @ [Wr_EAGAIN]"
  "os_accepts (offer s rs ws fds) = map Ac_Fd fds @ [Ac_EAGAIN]"
  "os_interest (offer s rs ws fds) = os_interest s"
  by (simp_all add: offer_def)

lemma offer_irrelevant [simp]:
  "live w rt (offer s rs ws fds) cn \<longleftrightarrow> live w rt s cn"
  "synced (offer s rs ws fds) cn \<longleftrightarrow> synced s cn"
  by (simp_all add: offer_def live_def stream_ok_def synced_def requests_of_def responses_of_def)

section \<open>Sending and receiving\<close>

lemma flush_loop_returns:
  assumes "buffer_wf b" "writes_within (length (pending b)) ws"
  shows "flush_loop b (ws @ [Wr_EAGAIN]) sent \<noteq> None"
  using assms
proof (induction ws arbitrary: b sent)
  case (Cons r ws)
  note wf = buffer_wfD [OF Cons.prems(1)]
  show ?case
  proof (cases "0 < readable_bytes b")
    case True
    have len: "length (pending b) = unat (readable_bytes b)" using Cons.prems(1) by (simp add: buffer_wfD)
    moreover have "unat (readable_bytes b) \<noteq> 0" using True by (simp add: word_less_nat_alt)
    ultimately have n: "length (pending b) \<noteq> 0" "length (pending b) = unat (readable_bytes b)" by metis+
    show ?thesis
    proof (cases r)
      case (Wr_Bytes k)
      then have k: "0 < k" "k \<le> length (pending b)" "writes_within (length (pending b) - k) ws"
        using Cons.prems(2) n(1) by simp_all
      have mv: "k < max_vec" using k(2) n(2) wf by linarith
      then have "unat (word_of_nat k :: u64) = k" by (simp add: unat_of_nat take_bit_eq_mod max_vec_def)
      then have "buffer_wf (consume_frame b (word_of_nat k))"
        "length (pending (consume_frame b (word_of_nat k))) = length (pending b) - k"
        using consume_frame_spec [OF Cons.prems(1), of "word_of_nat k"] mv by simp_all
      then have "flush_loop (consume_frame b (word_of_nat k)) (ws @ [Wr_EAGAIN]) sent' \<noteq> None" for sent'
        using Cons.IH [of "consume_frame b (word_of_nat k)"] k(3) by simp
      then show ?thesis using True Wr_Bytes k n(2) by auto
    next
      case Wr_EINTR
      then show ?thesis using Cons.IH [OF Cons.prems(1)] Cons.prems(2) True n(1) by simp
    qed (use True n Cons.prems(2) in \<open>simp_all add: ex_bool_eq\<close>)
  qed (simp add: ex_bool_eq)
qed (simp add: ex_bool_eq)

lemma flush_returns:
  assumes "live w rt s cn" "os_writes s = ws @ [Wr_EAGAIN]"
    "writes_within (length (pending (cn_write_buffer cn))) ws"
  shows "flush_pending_write w rt s cn \<noteq> None"
proof -
  obtain ok b sent rest where "flush_loop (cn_write_buffer cn) (ws @ [Wr_EAGAIN]) [] = Some (ok, b, sent, rest)"
    using flush_loop_returns [of "cn_write_buffer cn" ws "[]"] assms(1,3) by (auto simp: live_def)
  then show ?thesis
    using assms(2) by (auto simp: flush_pending_write_def update_client_events_def Let_def)
qed

lemma read_loop_returns:
  assumes "live w rt s cn" "\<not> cn_has_pending_write cn" "synced s cn" "env_ok w rt"
    and "reads_within (cn_read_buffer cn) rs"
  shows "read_loop w rt s cn (rs @ [Rd_EAGAIN]) \<noteq> None"
  using assms
proof (induction rs arbitrary: s cn)
  case Nil
  then show ?case by (simp add: read_loop.simps Let_def ex_bool_eq)
next
  case (Cons r rs)
  note room = room_step [OF Cons.prems(1)]
  show ?case
  proof (cases "read_room cn = 0")
    case True
    then show ?thesis by (simp add: read_loop.simps [of w rt s cn] Let_def ex_bool_eq)
  next
    case False
    note within = Cons.prems(5) [unfolded reads_within.simps(2) Let_def if_not_P [OF this]]
    show ?thesis
    proof (cases r)
      case (Rd_Bytes bs)
      then have ok: "bs \<noteq> []" "length bs \<le> unat (read_room cn)"
        and rest: "reads_within (cn_read_buffer (got_bytes cn bs)) rs" using within by simp_all
      obtain out rt3 s3 cn3 where st: "live w rt (got_os s cn bs) (got_bytes cn bs)"
        "\<not> cn_has_pending_write (got_bytes cn bs)" "synced (got_os s cn bs) (got_bytes cn bs)"
        and res: "process_result w rt (got_os s cn bs) (got_bytes cn bs) (out, rt3, s3, cn3)"
        and eq: "read_loop w rt s cn (Rd_Bytes bs # rs @ [Rd_EAGAIN]) = (case out of
            PF_CloseConnection \<Rightarrow> Some (True, rt3, s3\<lparr>os_reads := rs @ [Rd_EAGAIN]\<rparr>, cn3)
          | PF_PauseForWrite \<Rightarrow> Some (False, rt3, s3\<lparr>os_reads := rs @ [Rd_EAGAIN]\<rparr>, cn3)
          | PF_Continue \<Rightarrow> read_loop w rt3 s3 cn3 (rs @ [Rd_EAGAIN]))"
        using read_round [OF Cons.prems(1-4) ok False] by metis
      show ?thesis
      proof (cases out)
        case PF_Continue
        then have same: "rt3 = rt" "s3 = got_os s cn bs" "cn3 = got_bytes cn bs"
          using res by (simp_all add: process_result_def)
        from Cons.IH [OF st Cons.prems(4) rest] show ?thesis
          unfolding Rd_Bytes append_Cons eq PF_Continue same by simp
      qed (use eq Rd_Bytes in simp_all)
    next
      case Rd_EINTR
      then have "reads_within (make_room (cn_read_buffer cn)) rs" using within by simp
      then have "read_loop w rt s (cn\<lparr>cn_read_buffer := make_room (cn_read_buffer cn)\<rparr>) (rs @ [Rd_EAGAIN]) \<noteq> None"
        using Cons.IH [OF room(2) _ _ Cons.prems(4)] Cons.prems(2,3) room(3) by simp
      then show ?thesis using Rd_EINTR False
        by (simp add: read_loop.simps [of w rt s cn] Let_def)
    qed (use False in \<open>simp_all add: read_loop.simps [of w rt s cn] Let_def\<close>)
  qed
qed

section \<open>Events\<close>

lemma after_flush_returns:
  assumes "live w rt s cn" "\<not> cn_has_pending_write cn" "synced s cn" "env_ok w rt"
    and "os_reads s = rs @ [Rd_EAGAIN]" "reads_within (cn_read_buffer cn) rs"
  shows "after_flush w rt s cn fd \<noteq> None"
proof -
  obtain out rt2 s2 cn2 where pr: "process_ready_frames w rt s cn = Some (out, rt2, s2, cn2)"
    and res: "process_result w rt s cn (out, rt2, s2, cn2)"
    using process_ready_frames_spec [OF assms(1-4)] by (metis prod_cases4)
  show ?thesis
  proof (cases out)
    case PF_Continue
    then have "rt2 = rt" "s2 = s" "cn2 = cn" using res by (simp_all add: process_result_def)
    then show ?thesis
      using read_loop_returns [OF assms(1-4,6)] pr PF_Continue assms(5) by (auto simp: after_flush_def)
  qed (use pr in \<open>simp_all add: after_flush_def\<close>)
qed

lemma handle_client_event_eq:
  assumes "wr_connections rt (ev_fd ev) = Some cn" "\<not> (ev_err ev \<or> ev_hup ev \<or> ev_rdhup ev)"
  shows "handle_client_event w rt s ev =
    (case (if cn_has_pending_write cn \<and> ev_out ev then flush_pending_write w rt s cn else Some (True, s, cn)) of
       None \<Rightarrow> None
     | Some (ok, s, cn) \<Rightarrow>
         if \<not> ok then Some (close_connection (put_connection rt cn (ev_fd ev)) s (ev_fd ev))
         else if cn_has_pending_write cn then Some (put_connection rt cn (ev_fd ev), s)
         else after_flush w rt s cn (ev_fd ev))"
  unfolding handle_client_event_def after_flush_def Let_def assms(1) option.case if_not_P [OF assms(2)]
  by (rule refl)

text \<open>The results are what the kernel may give to the connection \<open>fd\<close>, if it is open.\<close>

definition results_within :: "WorkerRuntime \<Rightarrow> int \<Rightarrow> sys_read list \<Rightarrow> sys_write list \<Rightarrow> bool" where
  "results_within rt fd rs ws \<longleftrightarrow>
    (case wr_connections rt fd of
       None \<Rightarrow> True
     | Some cn \<Rightarrow> reads_within (cn_read_buffer cn) rs \<and>
         writes_within (length (pending (cn_write_buffer cn))) ws)"

lemma client_event_returns:
  assumes inv: "worker_inv k w rt s" and within: "results_within rt (ev_fd ev) rs ws"
  shows "handle_client_event w rt (offer s rs ws fds) ev \<noteq> None"
proof (cases "wr_connections rt (ev_fd ev)")
  case (Some cn)
  have rs: "reads_within (cn_read_buffer cn) rs" and ws: "writes_within (length (pending (cn_write_buffer cn))) ws"
    using within Some by (simp_all add: results_within_def)
  note c = connection_invD [OF worker_invD(5) [OF inv Some]]
  let ?s = "offer s rs ws fds"
  have l: "live w rt ?s cn" "synced ?s cn" using c(3,4) by simp_all
  have env: "env_ok w rt" using inv by (rule worker_invD)
  define flush where "flush = (if cn_has_pending_write cn \<and> ev_out ev
    then flush_pending_write w rt ?s cn else Some (True, ?s, cn))"
  have "flush \<noteq> None"
    using flush_returns [OF l(1) _ ws] by (simp add: flush_def ex_bool_eq)
  then obtain ok s1 cn1 where fl: "flush = Some (ok, s1, cn1)" by (cases flush) auto
  have step: "live w rt s1 cn1" "ok \<Longrightarrow> synced s1 cn1" "os_reads s1 = rs @ [Rd_EAGAIN]"
    "cn_read_buffer cn1 = cn_read_buffer cn"
    using fl l flush_pending_write_spec [of w rt ?s cn ok s1 cn1] by (auto simp: flush_def split: if_splits)
  have "after_flush w rt s1 cn1 (ev_fd ev) \<noteq> None" if "ok" "\<not> cn_has_pending_write cn1"
    using after_flush_returns [OF step(1) that(2) step(2) [OF that(1)] env step(3)] rs step(4) by simp
  then show ?thesis
    using Some fl handle_client_event_eq [of rt ev cn w ?s]
    by (cases "ev_err ev \<or> ev_hup ev \<or> ev_rdhup ev")
      (simp_all add: flush_def [symmetric] handle_client_event_def [of _ _ _ ev])
qed (simp add: handle_client_event_def)

lemma accept_returns:
  assumes "distinct fds" "\<forall>n \<in> set fds. os_interest s (int n) = None"
  shows "accept_loop w rt s (map Ac_Fd fds @ [Ac_EAGAIN]) \<noteq> None"
  using assms
proof (induction fds arbitrary: rt s)
  case (Cons n fds)
  then have IH: "\<forall>n \<in> set fds. os_interest s (int n) = None \<Longrightarrow>
      accept_loop w rt s (map Ac_Fd fds @ [Ac_EAGAIN]) \<noteq> None" for rt s by simp
  show ?case using Cons.prems by (auto simp: Let_def simp del: not_None_eq intro!: IH)
qed simp

lemma event_returns:
  assumes inv: "worker_inv k w rt s" and "results_within rt (ev_fd ev) rs ws"
    and "distinct fds" "\<forall>n \<in> set fds. wr_connections rt (int n) = None"
  shows "process_events w rt (offer s rs ws fds) [ev] \<noteq> None"
proof -
  have "\<forall>n \<in> set fds. os_interest (offer s rs ws fds) (int n) = None"
    using worker_invD(6) [OF inv] assms(4) by simp
  then have "(if ev_fd ev = wr_listen_fd rt
      then accept_loop w rt (offer s rs ws fds) (os_accepts (offer s rs ws fds))
      else handle_client_event w rt (offer s rs ws fds) ev) \<noteq> None"
    using accept_returns [OF assms(3), of "offer s rs ws fds" w rt] client_event_returns [OF assms(1,2), of fds]
    by (simp del: accept_loop.simps)
  then show ?thesis by auto
qed

end
