(* ===== verification/Rtb_Dialogue.thy ===== *)
theory Rtb_Dialogue
  imports Rtb_Progress
begin

text \<open>
  The protocol a worker follows with its clients, as an abstract step relation on what was
  received, answered and sent on each connection: it receives and answers only while
  nothing is left to send, answers the next request in line with a response of the pipeline,
  and sends the next bytes of the responses. The worker refines it: whatever the handlers of
  an event do is a sequence of its steps. What holds in all its reachable states holds of
  every run.
\<close>

section \<open>The protocol\<close>

record dialogue =
  dg_recv :: "u64 \<Rightarrow> u8 list"
  dg_sent :: "u64 \<Rightarrow> u8 list"
  dg_log :: "(u64 \<times> u8 list \<times> BidResponse) list"

definition dg_requests :: "dialogue \<Rightarrow> u64 \<Rightarrow> u8 list list" where
  "dg_requests d i = map (\<lambda>e. fst (snd e)) (filter (\<lambda>e. fst e = i) (dg_log d))"

definition dg_responses :: "proto_lib \<Rightarrow> dialogue \<Rightarrow> u64 \<Rightarrow> u8 list list" where
  "dg_responses lib d i = map (\<lambda>e. payload_of lib (snd (snd e))) (filter (\<lambda>e. fst e = i) (dg_log d))"

definition all_sent :: "proto_lib \<Rightarrow> dialogue \<Rightarrow> u64 \<Rightarrow> bool" where
  "all_sent lib d i \<longleftrightarrow> dg_sent d i = concat (map encode_frame (dg_responses lib d i))"

inductive dialogue_step ::
  "proto_lib \<Rightarrow> u32 \<Rightarrow> CampaignStoreSnapshot \<Rightarrow> dialogue \<Rightarrow> dialogue \<Rightarrow> bool"
  for lib mx store where
  receives: "all_sent lib d i \<Longrightarrow>
    dialogue_step lib mx store d (d\<lparr>dg_recv := (dg_recv d)(i := dg_recv d i @ bs)\<rparr>)"
| answers: "all_sent lib d i \<Longrightarrow> answer_ok lib mx store p r \<Longrightarrow>
    dg_recv d i = concat (map encode_frame (dg_requests d i)) @ encode_frame p @ unread \<Longrightarrow>
    dialogue_step lib mx store d (d\<lparr>dg_log := dg_log d @ [(i, p, r)]\<rparr>)"
| sends: "dg_sent d i @ bs @ unsent = concat (map encode_frame (dg_responses lib d i)) \<Longrightarrow>
    dialogue_step lib mx store d (d\<lparr>dg_sent := (dg_sent d)(i := dg_sent d i @ bs)\<rparr>)"

abbreviation dialogue_run where
  "dialogue_run lib mx store \<equiv> (dialogue_step lib mx store)\<^sup>*\<^sup>*"

definition no_dialogue :: dialogue where
  "no_dialogue = \<lparr>dg_recv = (\<lambda>_. []), dg_sent = (\<lambda>_. []), dg_log = []\<rparr>"

section \<open>What holds in its reachable states\<close>

text \<open>At most one response of a connection is not sent completely: the last.\<close>

definition one_in_flight :: "proto_lib \<Rightarrow> dialogue \<Rightarrow> u64 \<Rightarrow> bool" where
  "one_in_flight lib d i \<longleftrightarrow>
    (\<exists>prev final part unsent. dg_responses lib d i = prev @ final \<and> length final \<le> 1 \<and>
      dg_sent d i = concat (map encode_frame prev) @ part \<and> part @ unsent = concat (map encode_frame final))"

lemma in_flightI:
  "dg_responses lib d i = prev @ final \<Longrightarrow> dg_sent d i = concat (map encode_frame prev) @ part \<Longrightarrow>
    length final \<le> 1 \<Longrightarrow> part @ unsent = concat (map encode_frame final) \<Longrightarrow> one_in_flight lib d i"
  unfolding one_in_flight_def by blast

lemma responses_upd [simp]:
  "dg_responses lib (d\<lparr>dg_recv := f\<rparr>) i = dg_responses lib d i"
  "dg_responses lib (d\<lparr>dg_sent := f\<rparr>) i = dg_responses lib d i"
  "dg_responses lib (d\<lparr>dg_log := dg_log d @ [(j, p, r)]\<rparr>) i =
    dg_responses lib d i @ (if j = i then [payload_of lib r] else [])"
  by (simp_all add: dg_responses_def)

lemma step_in_flight:
  assumes "dialogue_step lib mx store d d'" "one_in_flight lib d i"
  shows "one_in_flight lib d' i"
  using assms(1)
proof (cases rule: dialogue_step.cases)
  case (receives j bs)
  then show ?thesis using assms(2) by (simp add: one_in_flight_def)
next
  case (answers j p r unread)
  show ?thesis
  proof (cases "j = i")
    case True
    then have "dg_responses lib d' i = dg_responses lib d i @ [payload_of lib r]"
      "dg_sent d' i = concat (map encode_frame (dg_responses lib d i)) @ []"
      using answers by (simp_all add: all_sent_def)
    then show ?thesis
      by (rule in_flightI [where part = "[]" and unsent = "encode_frame (payload_of lib r)"]) simp_all
  qed (use answers assms(2) in \<open>simp add: one_in_flight_def\<close>)
next
  case (sends j bs unsent)
  show ?thesis
  proof (cases "j = i")
    case True
    obtain prev final part rest where d: "dg_responses lib d i = prev @ final" "length final \<le> 1"
      "dg_sent d i = concat (map encode_frame prev) @ part" "part @ rest = concat (map encode_frame final)"
      using assms(2) unfolding one_in_flight_def by blast
    have "(part @ bs) @ unsent = concat (map encode_frame final)" using sends d True by simp
    moreover have "dg_sent d' i = concat (map encode_frame prev) @ part @ bs" using sends d True by simp
    moreover have "dg_responses lib d' i = prev @ final" using sends d by simp
    ultimately show ?thesis unfolding one_in_flight_def using d(2) by blast
  qed (use sends assms(2) in \<open>simp add: one_in_flight_def\<close>)
qed

lemma run_in_flight:
  assumes "dialogue_run lib mx store no_dialogue d"
  shows "one_in_flight lib d i"
  using assms
proof (induction rule: rtranclp_induct)
  case base
  show ?case
    unfolding one_in_flight_def
    by (intro exI [of _ "[]"]) (simp add: no_dialogue_def dg_responses_def)
qed (rule step_in_flight)

section \<open>The worker refines the protocol\<close>

definition dialogue_of :: "os \<Rightarrow> dialogue" where
  "dialogue_of s = \<lparr>dg_recv = os_recv s, dg_sent = os_sent s, dg_log = os_log s\<rparr>"

lemma dialogue_of_sel [simp]:
  "dg_recv (dialogue_of s) = os_recv s" "dg_sent (dialogue_of s) = os_sent s" "dg_log (dialogue_of s) = os_log s"
  "dg_requests (dialogue_of s) i = requests_of s i" "dg_responses lib (dialogue_of s) i = responses_of lib s i"
  by (simp_all add: dialogue_of_def dg_requests_def requests_of_def dg_responses_def responses_of_def)

lemma dialogue_eqI:
  "os_recv s' = os_recv s \<Longrightarrow> os_sent s' = os_sent s \<Longrightarrow> os_log s' = os_log s \<Longrightarrow> dialogue_of s' = dialogue_of s"
  by (simp add: dialogue_of_def)

abbreviation follows :: "world \<Rightarrow> WorkerRuntime \<Rightarrow> os \<Rightarrow> os \<Rightarrow> bool" where
  "follows w rt s s' \<equiv> dialogue_run (w_lib w) (wc_max_frame_size (wr_config rt)) (the (wr_campaign_store rt))
    (dialogue_of s) (dialogue_of s')"

lemma follows_same: "os_recv s' = os_recv s \<Longrightarrow> os_sent s' = os_sent s \<Longrightarrow> os_log s' = os_log s \<Longrightarrow> follows w rt s s'"
  unfolding dialogue_eqI [of s' s] by (rule rtranclp.rtrancl_refl)

lemma flush_follows:
  assumes "flush_pending_write w rt s cn = Some (ok, s', cn')" "live w rt s cn"
  shows "follows w rt s s'"
proof -
  let ?i = "cn_connection_id cn"
  obtain ok0 b out rest where fl: "flush_loop (cn_write_buffer cn) (os_writes s) [] = Some (ok0, b, out, rest)"
    and s': "os_recv s' = os_recv s" "os_log s' = os_log s" "os_sent s' = (os_sent s)(?i := os_sent s ?i @ out)"
    using assms(1) by (auto simp: flush_pending_write_def Let_def update_client_events_def signal_shutdown_fd_def
        split: option.splits if_splits)
  have "pending (cn_write_buffer cn) = out @ pending b"
    using flush_loop_spec [OF fl] assms(2) by (auto simp: live_def)
  then have "os_sent s ?i @ out @ pending b = concat (map encode_frame (responses_of (w_lib w) s ?i))"
    using assms(2) by (simp add: live_def stream_ok_def)
  moreover have "dialogue_of s' = dialogue_of s\<lparr>dg_sent := (os_sent s)(?i := os_sent s ?i @ out)\<rparr>"
    using s' by (simp add: dialogue_of_def)
  ultimately show ?thesis
    using dialogue_step.sends [of "dialogue_of s" ?i out "pending b" "w_lib w"] by (simp add: r_into_rtranclp)
qed

lemma frames_log:
  assumes "process_ready_frames w rt s cn = Some (out, rt', s', cn')"
  shows "os_recv s' = os_recv s" "os_sent s' = os_sent s"
    "os_log s' = os_log s \<or> (\<exists>p r. os_log s' = os_log s @ [(cn_connection_id cn, p, r)])"
  using assms
  by (auto simp: process_ready_frames_def Let_def update_client_events_def
      split: prod.splits option.splits if_splits FrameStatus.splits)

lemma idle_all_sent:
  assumes "live w rt s cn" "\<not> cn_has_pending_write cn" "synced s cn"
  shows "all_sent (w_lib w) (dialogue_of s) (cn_connection_id cn)"
  using assms by (simp add: live_def synced_def stream_ok_def all_sent_def)

lemma frames_follow:
  assumes pr: "process_ready_frames w rt s cn = Some (out, rt', s', cn')"
    and l: "live w rt s cn" "\<not> cn_has_pending_write cn" "synced s cn" and "env_ok w rt" "answered w rt s"
  shows "follows w rt s s'" and "answered w rt' s'"
proof -
  let ?i = "cn_connection_id cn"
  have res: "conn_step w rt s cn rt' s' cn'" "live w rt' s' cn'"
    using process_ready_frames_spec [OF l assms(5)] pr by (auto simp: process_result_def)
  show ans: "answered w rt' s'" using res(1) assms(6) by (simp add: conn_step_def)
  note log = frames_log [OF pr]
  show "follows w rt s s'"
  proof (cases "os_log s' = os_log s")
    case True
    with log(1,2) show ?thesis by (intro follows_same) simp_all
  next
    case False
    then obtain p r where pr: "os_log s' = os_log s @ [(?i, p, r)]" using log(3) by blast
    have ok: "answer_ok (w_lib w) (wc_max_frame_size (wr_config rt)) (the (wr_campaign_store rt)) p r"
      using answeredD(1) [OF ans, of "(?i, p, r)"] pr conn_stepD(1,2) [OF res(1)] by simp
    have "requests_of s' ?i = requests_of s ?i @ [p]" using pr by (simp add: requests_of_def)
    moreover have "os_recv s' ?i = concat (map encode_frame (requests_of s' ?i)) @ pending (cn_read_buffer cn')"
      using res(2) conn_stepD(8) [OF res(1)] by (simp add: live_def stream_ok_def)
    ultimately have "dg_recv (dialogue_of s) ?i = concat (map encode_frame (dg_requests (dialogue_of s) ?i)) @
        encode_frame p @ pending (cn_read_buffer cn')" using log(1) by simp
    from dialogue_step.answers [OF idle_all_sent [OF l] ok this]
    have "follows w rt s s'" using log(1,2) pr by (simp add: dialogue_of_def r_into_rtranclp)
    then show ?thesis .
  qed
qed

lemma follows_trans:
  "follows w rt s s1 \<Longrightarrow> follows w rt1 s1 s2 \<Longrightarrow> wr_config rt1 = wr_config rt \<Longrightarrow>
    wr_campaign_store rt1 = wr_campaign_store rt \<Longrightarrow> follows w rt s s2"
  by simp

lemma follows_irrelevant [simp]:
  "follows w rt s (s'\<lparr>os_reads := x\<rparr>) \<longleftrightarrow> follows w rt s s'"
  "follows w rt s (s'\<lparr>os_accepts := a\<rparr>) \<longleftrightarrow> follows w rt s s'"
  "follows w rt s (s'\<lparr>os_ctls := n, os_interest := m\<rparr>) \<longleftrightarrow> follows w rt s s'"
  by (simp_all add: dialogue_of_def)

lemma read_loop_follows:
  assumes "read_loop w rt s cn reads = Some (close, rt', s', cn')"
    and "live w rt s cn" "\<not> cn_has_pending_write cn" "synced s cn" "env_ok w rt" "answered w rt s"
  shows "follows w rt s s'"
  using assms
proof (induction reads arbitrary: s cn)
  case Nil
  then show ?case by (auto simp: read_loop.simps Let_def split: if_splits)
next
  case (Cons res rest)
  note rs = room_step [OF Cons.prems(2)]
  show ?case
  proof (cases "read_room cn = 0")
    case True
    then show ?thesis using Cons.prems by (auto simp: read_loop.simps [of w rt s cn] Let_def)
  next
    case room: False
    show ?thesis
    proof (cases res)
      case (Rd_Bytes bs)
      obtain out rt3 s3 cn3 where st: "live w rt (got_os s cn bs) (got_bytes cn bs)"
        "\<not> cn_has_pending_write (got_bytes cn bs)" "synced (got_os s cn bs) (got_bytes cn bs)"
        and pr: "process_ready_frames w rt (got_os s cn bs) (got_bytes cn bs) = Some (out, rt3, s3, cn3)"
        and ok: "process_result w rt (got_os s cn bs) (got_bytes cn bs) (out, rt3, s3, cn3)"
        and eq: "read_loop w rt s cn (Rd_Bytes bs # rest) = (case out of
            PF_CloseConnection \<Rightarrow> Some (True, rt3, s3\<lparr>os_reads := rest\<rparr>, cn3)
          | PF_PauseForWrite \<Rightarrow> Some (False, rt3, s3\<lparr>os_reads := rest\<rparr>, cn3)
          | PF_Continue \<Rightarrow> read_loop w rt3 s3 cn3 rest)"
        using read_round [OF Cons.prems(2-5) read_loop_bytesD [OF Cons.prems(1) [unfolded Rd_Bytes] room] room]
        by metis
      have ans: "answered w rt (got_os s cn bs)" using Cons.prems(6) by (simp add: answered_def)
      have got: "follows w rt s (got_os s cn bs)"
        using dialogue_step.receives [OF idle_all_sent [OF Cons.prems(2-4)], of _ _ bs]
        by (simp add: dialogue_of_def r_into_rtranclp)
      have step: "follows w rt s s3"
        using frames_follow(1) [OF pr st Cons.prems(5) ans] got by simp
      show ?thesis
      proof (cases out)
        case PF_Continue
        then have same: "rt3 = rt" "s3 = got_os s cn bs" "cn3 = got_bytes cn bs"
          using ok by (simp_all add: process_result_def)
        have "read_loop w rt (got_os s cn bs) (got_bytes cn bs) rest = Some (close, rt', s', cn')"
          using Cons.prems(1) Rd_Bytes eq PF_Continue same by simp
        from Cons.IH [OF this st Cons.prems(5) ans] got show ?thesis by simp
      qed (use Cons.prems(1) Rd_Bytes eq step in auto)
    next
      case Rd_EINTR
      then have "read_loop w rt s (cn\<lparr>cn_read_buffer := make_room (cn_read_buffer cn)\<rparr>) rest = Some (close, rt', s', cn')"
        using Cons.prems(1) room by (simp add: read_loop.simps [of w rt s cn] Let_def)
      from Cons.IH [OF this rs(2)] show ?thesis using Cons.prems(3-6) rs by simp
    qed (use room Cons.prems in \<open>auto simp: read_loop.simps [of w rt s cn] Let_def\<close>)
  qed
qed

text \<open>What is left of an event does not touch the dialogue.\<close>

lemma dialogue_close [simp]:
  "follows w rt s (snd (close_connection rt1 s1 fd)) \<longleftrightarrow> follows w rt s s1"
  by (simp add: close_connection_def)

lemma after_flush_follows:
  assumes "after_flush w rt s cn fd = Some (rt', s')"
    and "live w rt s cn" "\<not> cn_has_pending_write cn" "synced s cn" "env_ok w rt" "answered w rt s"
  shows "follows w rt s s'"
proof -
  obtain out rt2 s2 cn2 where pr: "process_ready_frames w rt s cn = Some (out, rt2, s2, cn2)"
    and res: "process_result w rt s cn (out, rt2, s2, cn2)"
    using process_ready_frames_spec [OF assms(2-5)] by (metis prod_cases4)
  have step: "follows w rt s s2" using frames_follow(1) [OF pr assms(2-6)] .
  have close: "follows w rt s s'" if "close_connection rt3 s3 fd = (rt', s')" "follows w rt s s3" for rt3 s3
    using dialogue_close [of w rt s rt3 s3 fd] that by simp
  show ?thesis
  proof (cases out)
    case PF_Continue
    then have same: "rt2 = rt" "s2 = s" "cn2 = cn" using res by (simp_all add: process_result_def)
    with PF_Continue pr assms(1) obtain stop rt3 s3 cn3 where
      rd: "read_loop w rt s cn (os_reads s) = Some (stop, rt3, s3, cn3)"
      and fin: "(if stop then close_connection (put_connection rt3 cn3 fd) s3 fd
        else (put_connection rt3 cn3 fd, s3)) = (rt', s')"
      by (auto simp: after_flush_def split: option.splits if_splits)
    have "follows w rt s s3" using read_loop_follows [OF rd assms(2-6)] .
    then show ?thesis using fin close by (cases stop) auto
  qed (use assms(1) pr step close in \<open>auto simp: after_flush_def\<close>)
qed

lemma handle_client_event_follows:
  assumes inv: "worker_inv k w rt s" and res: "handle_client_event w rt s ev = Some (rt', s')"
  shows "follows w rt s s'"
proof (cases "wr_connections rt (ev_fd ev)")
  case (Some cn)
  note c = connection_invD [OF worker_invD(5) [OF inv Some]]
  note i = worker_invD [OF inv]
  have close: "follows w rt s s'" if "close_connection rt3 s3 fd = (rt', s')" "follows w rt s s3" for rt3 s3 fd
    using dialogue_close [of w rt s rt3 s3 fd] that by simp
  show ?thesis
  proof (cases "ev_err ev \<or> ev_hup ev \<or> ev_rdhup ev")
    case True
    then have "close_connection rt s (ev_fd ev) = (rt', s')" using res Some by (simp add: handle_client_event_def)
    then show ?thesis by (rule close) simp
  next
    case False
    obtain ok s1 cn1 where fl: "(if cn_has_pending_write cn \<and> ev_out ev then flush_pending_write w rt s cn
        else Some (True, s, cn)) = Some (ok, s1, cn1)"
      and fin: "Some (rt', s') = (if \<not> ok then Some (close_connection (put_connection rt cn1 (ev_fd ev)) s1 (ev_fd ev))
        else if cn_has_pending_write cn1 then Some (put_connection rt cn1 (ev_fd ev), s1)
        else after_flush w rt s1 cn1 (ev_fd ev))"
      using res unfolding handle_client_event_eq [OF Some False] by (auto split: option.splits)
    have st: "conn_step w rt s cn rt s1 cn1" "live w rt s1 cn1" "ok \<Longrightarrow> synced s1 cn1"
      using fl flush_pending_write_spec [of w rt s cn ok s1 cn1] c(3,4) by (auto split: if_splits)
    have sent: "follows w rt s s1"
      using fl flush_follows [of w rt s cn ok s1 cn1] c(3) by (auto split: if_splits)
    have ans: "answered w rt s1" using st(1) i(3) by (simp add: conn_step_def)
    have "follows w rt s s'" if "ok" "\<not> cn_has_pending_write cn1"
    proof -
      have "after_flush w rt s1 cn1 (ev_fd ev) = Some (rt', s')" using fin that by simp
      from after_flush_follows [OF this st(2) that(2) st(3) [OF that(1)] i(1) ans] sent show ?thesis by simp
    qed
    then show ?thesis using fin sent close by (auto split: if_splits)
  qed
qed (use res in \<open>simp add: handle_client_event_def\<close>)

lemma accept_loop_follows: "accept_loop w rt s acs = Some (rt', s') \<Longrightarrow> dialogue_of s' = dialogue_of s"
proof (induction acs arbitrary: rt s)
  case (Cons ac rest)
  then show ?case by (cases ac) (auto simp: Let_def dialogue_of_def split: if_splits)
qed simp

lemma process_events_follows:
  assumes "process_events w rt s evs = Some (stop, rt', s')" and "worker_inv k w rt s"
  shows "follows w rt s s'"
  using assms
proof (induction evs arbitrary: rt s)
  case (Cons ev evs)
  show ?case
  proof (cases "ev_fd ev = wc_shutdown_fd (wr_config rt)")
    case True
    then show ?thesis using Cons.prems by simp
  next
    case False
    then obtain rt1 s1 where step: "(if ev_fd ev = wr_listen_fd rt then accept_loop w rt s (os_accepts s)
        else handle_client_event w rt s ev) = Some (rt1, s1)"
      and rest: "process_events w rt1 s1 evs = Some (stop, rt', s')"
      using Cons.prems(1) by (auto split: option.splits)
    have one: "process_events w rt s [ev] = Some (False, rt1, s1)" using step False by simp
    have "follows w rt s s1"
      using step accept_loop_follows [of w rt s "os_accepts s" rt1 s1]
        handle_client_event_follows [OF Cons.prems(2), of ev rt1 s1] by (auto split: if_splits)
    moreover have "follows w rt s1 s'"
      using Cons.IH [OF rest process_events_inv [OF one Cons.prems(2)]] process_events_setup [OF one]
      by (simp add: same_setup_def)
    ultimately show ?thesis by simp
  qed
qed simp

lemma run_worker_loop_follows:
  assumes "run_worker_loop w rt s batches = Some (code, rt', s')" and "worker_inv k w rt s"
  shows "follows w rt s s'"
  using assms
proof (induction batches arbitrary: rt s)
  case (Cons batch rest)
  show ?case
  proof (cases batch)
    case (Some evs)
    then obtain stop rt1 s1 where step: "process_events w rt s evs = Some (stop, rt1, s1)"
      and fin: "if stop then s' = s1 else run_worker_loop w rt1 s1 rest = Some (code, rt', s')"
      using Cons.prems(1) by (auto split: option.splits bool.splits)
    have "follows w rt s s1" by (rule process_events_follows [OF step Cons.prems(2)])
    moreover have "follows w rt s1 s'" if "\<not> stop"
      using Cons.IH [OF _ process_events_inv [OF step Cons.prems(2)]] process_events_setup [OF step] fin that
      by (simp add: same_setup_def)
    ultimately show ?thesis using fin by (cases stop) auto
  qed (use Cons in simp)
qed simp

end
