(* ===== verification/Rtb_Shutdown.thy ===== *)
theory Rtb_Shutdown
  imports Rtb_Sample
begin

text \<open>
  The shutdown of the server as a property of its reachable states. The invariant \<open>coordinated\<close> says that every
  worker that left its loop has signalled the shutdown descriptor, which nobody reads, so it
  stays readable for the others. From every reachable state a signal, followed by the shutdown
  events of the running workers in any order, brings the run to its end.
\<close>

section \<open>The invariant\<close>

definition stopped :: "server \<Rightarrow> nat" where
  "stopped sv = length (filter (\<lambda>wk. \<not> wk_running wk) (sv_workers sv))"

definition coordinated :: "server_env \<Rightarrow> server \<Rightarrow> bool" where
  "coordinated env sv \<longleftrightarrow>
    stopped sv \<le> sv_wakes sv \<and> (0 < stopped sv \<longrightarrow> pr_shutdown_requested (sv_process sv)) \<and>
    (\<forall>wk \<in> set (sv_workers sv). wc_shutdown_fd (wr_config (wk_runtime wk)) = se_eventfd env) \<and>
    pr_event_fd (sv_process sv) = se_eventfd env \<and> sv_exit_code sv = 0"

lemma filter_update:
  assumes "i < length xs" "P (xs ! i)"
  shows "length (filter (\<lambda>x. \<not> P x) (xs[i := x])) = length (filter (\<lambda>x. \<not> P x) xs) + (if P x then 0 else 1)"
proof -
  have "xs = take i xs @ xs ! i # drop (Suc i) xs" using assms(1) by (rule id_take_nth_drop)
  then have "filter (\<lambda>x. \<not> P x) xs = filter (\<lambda>x. \<not> P x) (take i xs) @ filter (\<lambda>x. \<not> P x) (drop (Suc i) xs)"
    using assms(2) by (metis filter.simps(2) filter_append)
  then show ?thesis using assms(1) by (simp add: upd_conv_take_nth_drop)
qed

text \<open>A batch: which worker it leaves running, and what it shares.\<close>

lemma batch_step:
  assumes "server_step env config sv (Ev_Batch i (Some evs)) = Some sv'"
  obtains stop rt s where "i < length (sv_workers sv)" "wk_running (sv_workers sv ! i)"
    "process_events (se_world env i) ((wk_runtime (sv_workers sv ! i))\<lparr>wr_benchmark_recorder := sv_recorder sv\<rparr>)
      (wk_os (sv_workers sv ! i)) evs = Some (stop, rt, s)"
    "sv' = (let sv1 = sv\<lparr>sv_workers := (sv_workers sv)[i := \<lparr>wk_runtime = rt, wk_os = s, wk_running = \<not> stop\<rparr>],
        sv_recorder := wr_benchmark_recorder rt\<rparr>
      in if stop then request_shutdown (se_eventfd env) sv1 else sv1)"
  using assms by (auto simp: server_step_def Let_def split: if_splits option.splits)

lemma server_step_coordinated:
  assumes inv: "coordinated env sv" and ev: "0 \<le> se_eventfd env"
    and step: "server_step env config sv e = Some sv'"
  shows "coordinated env sv'"
proof (cases "\<exists>i evs. e = Ev_Batch i (Some evs)")
  case True
  then obtain i evs where "e = Ev_Batch i (Some evs)" by blast
  from batch_step [OF step [unfolded this]] obtain stop rt s where
    i: "i < length (sv_workers sv)" "wk_running (sv_workers sv ! i)"
    and pe: "process_events (se_world env i) ((wk_runtime (sv_workers sv ! i))\<lparr>wr_benchmark_recorder := sv_recorder sv\<rparr>)
      (wk_os (sv_workers sv ! i)) evs = Some (stop, rt, s)"
    and sv': "sv' = (let sv1 = sv\<lparr>sv_workers := (sv_workers sv)[i := \<lparr>wk_runtime = rt, wk_os = s, wk_running = \<not> stop\<rparr>],
        sv_recorder := wr_benchmark_recorder rt\<rparr>
      in if stop then request_shutdown (se_eventfd env) sv1 else sv1)" by metis
  let ?wk = "\<lparr>wk_runtime = rt, wk_os = s, wk_running = \<not> stop\<rparr>"
  have n: "stopped sv' = stopped sv + (if stop then 1 else 0)"
    using filter_update [of i "sv_workers sv" wk_running ?wk] i sv'
    by (auto simp: stopped_def request_shutdown_def Let_def)
  have "wc_shutdown_fd (wr_config rt) = se_eventfd env"
    using process_events_setup [OF pe] inv i(1) by (simp add: same_setup_def coordinated_def)
  moreover have "sv_workers sv' = (sv_workers sv)[i := ?wk]"
    using sv' by (simp add: request_shutdown_def Let_def)
  ultimately have "\<forall>wk \<in> set (sv_workers sv'). wc_shutdown_fd (wr_config (wk_runtime wk)) = se_eventfd env"
    using inv by (auto simp: coordinated_def dest!: subsetD [OF set_update_subset_insert])
  with n inv sv' ev show ?thesis
    by (auto simp: coordinated_def request_shutdown_def Let_def)
next
  case False
  then show ?thesis
    using inv step ev
    by (cases e) (auto simp: server_step_def handle_shutdown_signal_def request_shutdown_def coordinated_def
        stopped_def Let_def split: if_splits option.splits)
qed

interpretation coordination: stepped_component "server_step env config"
  "\<lambda>sv. coordinated env sv \<and> 0 \<le> se_eventfd env" for env config
  by unfold_locales (auto intro: server_step_coordinated)

lemma run_coordinated:
  "run_steps env config sv0 evs = Some sv \<Longrightarrow> coordinated env sv0 \<Longrightarrow> 0 \<le> se_eventfd env \<Longrightarrow> coordinated env sv"
  unfolding run_steps_partial using coordination.run_inv by blast

lemma start_coordinated:
  assumes "environment_ok env" "start_workers env config store recorder n [] = Inl rts"
    "pr_event_fd p = se_eventfd env"
  shows "coordinated env (start_state env recorder p rts)"
proof -
  have st: "length rts = n" "i < n \<Longrightarrow> started env config store recorder i (rts ! i)" for i
    using start_workers_spec [of env "[]" config store recorder n] assms by (simp_all add: environment_ok_def)
  have "wc_shutdown_fd (wr_config (rts ! i)) = se_eventfd env" if "i < n" for i
    using st(2) [OF that] initialize_success(1) [of "se_files env"]
    by (fastforce simp: started_def fresh_runtime_owns worker_config_def)
  then show ?thesis using st(1) assms(3) by (auto simp: coordinated_def stopped_def start_state_def)
qed

section \<open>Bringing the run to its end\<close>

definition running :: "server \<Rightarrow> nat set" where
  "running sv = {i. i < length (sv_workers sv) \<and> wk_running (sv_workers sv ! i)}"

text \<open>The event of the shutdown descriptor, delivered to worker \<open>i\<close>.\<close>

definition shutdown_batch :: "server_env \<Rightarrow> nat \<Rightarrow> server_event" where
  "shutdown_batch env i = Ev_Batch i
    (Some [\<lparr>ev_fd = se_eventfd env, ev_out = False, ev_err = False, ev_hup = False, ev_rdhup = False\<rparr>])"

lemma shutdown_batch_step:
  assumes "coordinated env sv" "i \<in> running sv" "0 \<le> se_eventfd env"
  shows "\<exists>sv'. server_step env config sv (shutdown_batch env i) = Some sv' \<and>
    running sv' = running sv - {i} \<and> answers_total sv' = answers_total sv"
proof -
  have i: "i < length (sv_workers sv)" "wk_running (sv_workers sv ! i)" using assms(2) by (simp_all add: running_def)
  have fd: "wc_shutdown_fd (wr_config (wk_runtime (sv_workers sv ! i))) = se_eventfd env"
    using assms(1) i(1) by (simp add: coordinated_def)
  let ?wk = "\<lparr>wk_runtime = (wk_runtime (sv_workers sv ! i))\<lparr>wr_benchmark_recorder := sv_recorder sv\<rparr>,
    wk_os = wk_os (sv_workers sv ! i), wk_running = False\<rparr>"
  have "map (\<lambda>wk. length (os_log (wk_os wk))) ((sv_workers sv)[i := ?wk]) =
      map (\<lambda>wk. length (os_log (wk_os wk))) (sv_workers sv)"
    using i(1) by (intro nth_equalityI) (auto simp: nth_list_update)
  moreover have "{j. j < length (sv_workers sv) \<and> wk_running ((sv_workers sv)[i := ?wk] ! j)} = running sv - {i}"
  proof (rule set_eqI)
    show "j \<in> {j. j < length (sv_workers sv) \<and> wk_running ((sv_workers sv)[i := ?wk] ! j)} \<longleftrightarrow>
        j \<in> running sv - {i}" for j
      using i(1) by (cases "j = i") (auto simp: running_def)
  qed
  ultimately show ?thesis
    using assms(3) fd i
    by (simp add: server_step_def shutdown_batch_def request_shutdown_def Let_def running_def answers_total_def)
qed

lemma shutdown_finishes:
  assumes "coordinated env sv" "0 \<le> se_eventfd env" "distinct ids" "set ids = running sv"
  shows "\<exists>sv'. run_steps env config sv (map (shutdown_batch env) ids) = Some sv' \<and>
    running sv' = {} \<and> answers_total sv' = answers_total sv"
  using assms(1,3,4)
proof (induction ids arbitrary: sv)
  case (Cons i ids)
  then obtain sv1 where sv1: "server_step env config sv (shutdown_batch env i) = Some sv1"
    "running sv1 = running sv - {i}" "answers_total sv1 = answers_total sv"
    using shutdown_batch_step [OF Cons.prems(1) _ assms(2)] by (metis list.set_intros(1))
  have "set ids = running sv1" using Cons.prems(2,3) sv1(2) by auto
  from Cons.IH [OF server_step_coordinated [OF Cons.prems(1) assms(2) sv1(1)] _ this] Cons.prems(2) sv1
  show ?case by simp
qed simp

lemma none_running: "running sv = {} \<longleftrightarrow> \<not> (\<exists>wk \<in> set (sv_workers sv). wk_running wk)"
  by (metis (mono_tags, lifting) Collect_empty_eq in_set_conv_nth running_def)

text \<open>The server is up: everything \<open>run_server\<close> does before its threads run has succeeded.\<close>

definition server_up :: "server_env \<Rightarrow> process \<Rightarrow> ServerConfig \<Rightarrow> server \<Rightarrow> bool" where
  "server_up env p config sv \<longleftrightarrow>
    sc_port config \<noteq> 0 \<and> 0 < sc_workers config \<and> 0 \<le> se_eventfd env \<and> se_sigint_ok env \<and> se_sigterm_ok env \<and>
    (case load_campaign_store_snapshot (se_files env) (sc_campaign_data_path config) of
       None \<Rightarrow> False
     | Some store \<Rightarrow>
         (case start_workers env config store (make_recorder config) (nat (sc_workers config)) [] of
            Inr _ \<Rightarrow> False
          | Inl rts \<Rightarrow> sv = start_state env (make_recorder config)
              (p\<lparr>pr_event_fd := se_eventfd env, pr_sigint := Sig_Shutdown, pr_sigterm := Sig_Shutdown,
                 pr_shutdown_requested := False\<rparr>) rts))"

lemma server_up_run:
  assumes "server_up env p config sv0" "run_steps env config sv0 evs = Some sv" "running sv = {}"
    "report_benchmark env config (sv_recorder sv) = Some (report, written)"
  shows "\<exists>p' gone. run_server env p config evs =
    Some (sv_exit_code sv, p', gone, Some (sv, listening_line config @ report, written))"
  using assms
  by (auto simp: server_up_def run_server_def install_signal_handlers_def empty_scope_def Let_def none_running
      split: option.splits sum.splits)

lemma server_up_inv:
  assumes "environment_ok env" "server_up env p config sv0"
  shows "coordinated env sv0" "server_inv env sv0" "0 \<le> se_eventfd env"
proof -
  obtain store rts where st: "load_campaign_store_snapshot (se_files env) (sc_campaign_data_path config) = Some store"
    "start_workers env config store (make_recorder config) (nat (sc_workers config)) [] = Inl rts"
    "sv0 = start_state env (make_recorder config)
      (p\<lparr>pr_event_fd := se_eventfd env, pr_sigint := Sig_Shutdown, pr_sigterm := Sig_Shutdown,
         pr_shutdown_requested := False\<rparr>) rts"
    using assms(2) by (auto simp: server_up_def split: option.splits sum.splits)
  show "coordinated env sv0" unfolding st(3) by (rule start_coordinated [OF assms(1) st(2)]) simp
  have "store_wf store" using load_store_wf [OF st(1)] st(1) assms(1) by (simp add: environment_ok_def)
  moreover have "\<And>r. make_recorder config = Some r \<Longrightarrow> br_requests r = []"
    by (auto simp: make_recorder_def new_recorder_def split: if_splits)
  ultimately show "server_inv env sv0" using start_inv(1) [OF assms(1) _ _ st(2)] st(3) by blast
  show "0 \<le> se_eventfd env" using assms(2) by (simp add: server_up_def)
qed

lemma report_defined:
  assumes "\<And>b. recorder = Some b \<Longrightarrow> length (br_requests b) \<le> 2 ^ 53"
  obtains report written where "report_benchmark env config recorder = Some (report, written)"
proof (cases recorder)
  case (Some b)
  obtain s where "summarize (se_ldp env) b = Some s" using summarize_defined [OF assms [OF Some]] by blast
  then have "report_benchmark env config recorder \<noteq> None"
    using Some by (simp add: report_benchmark_def print_summary_def write_json_def Let_def)
  then show ?thesis using that by (metis not_None_eq prod.exhaust)
qed (use that in \<open>simp add: report_benchmark_def\<close>)

section \<open>An instance\<close>

lemma sample_server_up:
  assumes "sc_port config \<noteq> 0" "sc_workers config = 1"
  shows "\<exists>sv0. server_up sample_env sample_process config sv0 \<and> answers_total sv0 = 0 \<and>
    length (sv_workers sv0) = 1 \<and> running sv0 = {0}"
proof -
  obtain store where store: "load_campaign_store_snapshot (\<lambda>_. Some sample_csv)
      (sc_campaign_data_path config) = Some store" using sample_store by blast
  have "\<exists>rt. start_workers sample_env config store (make_recorder config) (Suc 0) [] = Inl [rt]"
    by (simp add: start_workers_Suc sample_env_simps initialize_worker_runtime_def fresh_runtime_owns
        sample_startup_def Let_def)
  then show ?thesis
    using store assms by (auto simp: server_up_def sample_env_simps start_state_def answers_total_def
        running_def sample_os_def)
qed

section \<open>Properties\<close>

text \<open>
  C16. The server can always be stopped. When it is up, then at every moment of every run, with
  whatever the workers have done so far: a worker that has stopped has told the others, and a
  signal wakes the workers; once each worker that still runs gets the shutdown event, in any
  order, \<open>run_server\<close> returns zero with the handlers restored, its report written, and no
  answer lost or added.
\<close>

theorem shutdown_completes:
  assumes "environment_ok env" and "server_up env p config sv0"
    and "run_steps env config sv0 evs = Some sv" and "answers_total sv \<le> 2 ^ 53"
    and "distinct ids" and "set ids = running sv"
  shows "(running sv = {..<length (sv_workers sv)} \<or> 0 < sv_wakes sv \<and> pr_shutdown_requested (sv_process sv)) \<and>
    sv_wakes (handle_shutdown_signal sv) = sv_wakes sv + 1 \<and>
    (\<exists>p' gone sv' out written. run_server env p config (evs @ Ev_Signal # map (shutdown_batch env) ids) =
        Some (0, p', gone, Some (sv', out, written)) \<and>
      pr_sigint p' = pr_sigint p \<and> pr_sigterm p' = pr_sigterm p \<and> answers_total sv' = answers_total sv)"
proof -
  note up = server_up_inv [OF assms(1,2)]
  have co: "coordinated env sv" using run_coordinated [OF assms(3) up(1,3)] .
  let ?sv = "handle_shutdown_signal sv"
  have sig: "server_step env config sv Ev_Signal = Some ?sv" "running ?sv = running sv"
    "answers_total ?sv = answers_total sv" "sv_wakes ?sv = sv_wakes sv + 1"
    using co up(3) by (simp_all add: server_step_def handle_shutdown_signal_def running_def answers_total_def
        coordinated_def Let_def)
  obtain sv' where fin: "run_steps env config ?sv (map (shutdown_batch env) ids) = Some sv'" "running sv' = {}"
    "answers_total sv' = answers_total sv"
    using shutdown_finishes [OF server_step_coordinated [OF co up(3) sig(1)] up(3) assms(5), of config]
      assms(6) sig by auto
  have run: "run_steps env config sv0 (evs @ Ev_Signal # map (shutdown_batch env) ids) = Some sv'"
    using assms(3) sig(1) fin(1) by (simp add: run_steps_partial partial_run_append)
  have "length (br_requests b) \<le> 2 ^ 53" if "sv_recorder sv' = Some b" for b
    using run_steps_inv [OF run up(2)] that fin(3) assms(4) by (simp add: server_inv_def)
  then obtain report written where "report_benchmark env config (sv_recorder sv') = Some (report, written)"
    using report_defined by blast
  from server_up_run [OF assms(2) run fin(2) this] obtain p' gone where
    res: "run_server env p config (evs @ Ev_Signal # map (shutdown_batch env) ids) =
      Some (sv_exit_code sv', p', gone, Some (sv', listening_line config @ report, written))" by blast
  have "running sv = {..<length (sv_workers sv)} \<or> 0 < stopped sv"
    by (auto simp: running_def stopped_def filter_empty_conv)
  then have "running sv = {..<length (sv_workers sv)} \<or> 0 < sv_wakes sv \<and> pr_shutdown_requested (sv_process sv)"
    using co by (auto simp: coordinated_def)
  then show ?thesis using run_server_finished(1-3) [OF assms(1) res] res sig(4) fin(3) by metis
qed

theorem shutdown_completes_witness:
  "\<exists>p' gone sv' out written. run_server sample_env sample_process sample_server_config
      [Ev_Signal, shutdown_batch sample_env 0] = Some (0, p', gone, Some (sv', out, written)) \<and>
    pr_sigint p' = Sig_Previous 1"
proof -
  obtain sv0 where sv0: "server_up sample_env sample_process sample_server_config sv0" "answers_total sv0 = 0"
    "running sv0 = {0}"
    using sample_server_up [of sample_server_config] by (auto simp: sample_server_config_def empty_ServerConfig_def)
  have "run_steps sample_env sample_server_config sv0 [] = Some sv0" "answers_total sv0 \<le> 2 ^ 53"
    "distinct [0::nat]" "set [0] = running sv0"
    using sv0(2,3) by simp_all
  then have "\<exists>p' gone sv' out written. run_server sample_env sample_process sample_server_config
      ([] @ Ev_Signal # map (shutdown_batch sample_env) [0]) = Some (0, p', gone, Some (sv', out, written)) \<and>
    pr_sigint p' = pr_sigint sample_process \<and> pr_sigterm p' = pr_sigterm sample_process \<and>
    answers_total sv' = answers_total sv0"
    using shutdown_completes [OF sample_environment_ok sv0(1)] by blast
  then show ?thesis by (simp add: sample_process_def) blast
qed

text \<open>
  C20. The request limit is one over all workers: at every moment of every benchmark run, the next
  flush on any worker that succeeds and empties a send buffer signals the shutdown descriptor
  exactly when there is a limit and the requests answered by all workers together have
  reached it; a flush that leaves bytes never does.
\<close>

theorem limit_counts_all_workers:
  assumes "environment_ok env" and "server_up env p config sv0" and "sc_benchmark config"
    and "run_steps env config sv0 evs = Some sv" and "answers_total sv < max_vec"
    and "i < length (sv_workers sv)"
    and "flush_pending_write (se_world env i)
      ((wk_runtime (sv_workers sv ! i))\<lparr>wr_benchmark_recorder := sv_recorder sv\<rparr>) s cn = Some (True, s', cn')"
  shows "os_wakes s' = os_wakes s +
    (if \<not> cn_has_pending_write cn' \<and> sc_benchmark_requests config \<noteq> 0 \<and>
       unat (sc_benchmark_requests config) \<le> answers_total sv then 1 else 0)"
proof -
  note up = server_up_inv [OF assms(1,2)]
  have co: "coordinated env sv" using run_coordinated [OF assms(4) up(1,3)] .
  have "sv_recorder sv0 = make_recorder config"
    using assms(2) by (auto simp: server_up_def start_state_def split: option.splits sum.splits)
  then obtain b where b: "sv_recorder sv = Some b" "br_request_limit b = sc_benchmark_requests config"
    using run_steps_recorder [OF assms(4)] assms(3) by (auto simp: make_recorder_def new_recorder_def)
  have len: "length (br_requests b) = answers_total sv"
    using run_steps_inv [OF assms(4) up(2)] b(1) by (simp add: server_inv_def)
  have lim: "request_limit_reached b \<longleftrightarrow> sc_benchmark_requests config \<noteq> 0 \<and>
      unat (sc_benchmark_requests config) \<le> answers_total sv"
    using assms(5) len b(2) by (simp add: request_limit_reached_def completed_requests_def word_le_nat_alt unat_vec_size)
  have fd: "\<not> wc_shutdown_fd (wr_config (wk_runtime (sv_workers sv ! i))) < 0"
    using co assms(6) up(3) by (simp add: coordinated_def)
  show ?thesis
    using assms(7) fd b(1) lim
    by (auto simp: flush_pending_write_def update_client_events_def signal_shutdown_fd_def Let_def
        split: option.splits if_splits prod.splits)
qed

text \<open>No request answered yet, so a flush does not stop a run with a limit of one.\<close>

theorem limit_counts_all_workers_witness:
  "\<exists>sv0 s'. server_up sample_env sample_process (sample_server_config\<lparr>sc_benchmark_requests := 1\<rparr>) sv0 \<and>
    flush_pending_write sample_world
      ((wk_runtime (sv_workers sv0 ! 0))\<lparr>wr_benchmark_recorder := sv_recorder sv0\<rparr>) sample_os
      (empty_connection\<lparr>cn_fd := 7\<rparr>) = Some (True, s', (empty_connection\<lparr>cn_fd := 7\<rparr>)) \<and>
    os_wakes s' = os_wakes sample_os"
proof -
  let ?config = "sample_server_config\<lparr>sc_benchmark_requests := 1\<rparr>" and ?cn = "empty_connection\<lparr>cn_fd := 7\<rparr>"
  have c: "sc_benchmark ?config" "sc_benchmark_requests ?config = 1"
    by (simp_all add: sample_server_config_def empty_ServerConfig_def)
  obtain sv0 where sv0: "server_up sample_env sample_process ?config sv0" "answers_total sv0 = 0"
    "length (sv_workers sv0) = 1"
    using sample_server_up [of ?config] by (auto simp: sample_server_config_def empty_ServerConfig_def)
  have fl: "\<exists>s'. flush_pending_write (se_world sample_env 0)
      ((wk_runtime (sv_workers sv0 ! 0))\<lparr>wr_benchmark_recorder := sv_recorder sv0\<rparr>) sample_os ?cn = Some (True, s', ?cn)"
    by (cases "case sv_recorder sv0 of None \<Rightarrow> False | Some r \<Rightarrow> request_limit_reached r")
      (simp_all add: flush_pending_write_def update_client_events_def empty_connection_def empty_buffer_def
        readable_bytes_def sample_os_def sample_env_simps sample_world_def Let_def)
  then obtain s' where s': "flush_pending_write (se_world sample_env 0)
      ((wk_runtime (sv_workers sv0 ! 0))\<lparr>wr_benchmark_recorder := sv_recorder sv0\<rparr>) sample_os ?cn = Some (True, s', ?cn)"
    by blast
  have "os_wakes s' = os_wakes sample_os"
    using limit_counts_all_workers [OF sample_environment_ok sv0(1) c(1) _ _ _ s', of "[]"] sv0(2,3) c(2)
    by (simp add: max_vec_def)
  then show ?thesis using sv0(1) s' by (auto simp: sample_env_simps)
qed

end
