(* ===== verification/Rtb_Protocol.thy ===== *)
theory Rtb_Protocol
  imports Rtb_Dialogue Rtb_Shutdown
begin

text \<open>
  The protocol of \<open>Rtb_Dialogue\<close> for the whole server: in every interleaving of the threads each
  worker follows it, all of them on the one store the server loaded. A batch of events is no
  larger a step than its events one after another, so the interleavings are those of events.
\<close>

section \<open>Batches and events\<close>

lemma process_events_split:
  "process_events w rt s (evs @ evs') =
    (case process_events w rt s evs of
       None \<Rightarrow> None | Some (True, rt, s) \<Rightarrow> Some (True, rt, s)
     | Some (False, rt, s) \<Rightarrow> process_events w rt s evs')"
proof (induction evs arbitrary: rt s)
  case (Cons ev evs)
  then show ?case by (auto split: option.splits)
qed simp

lemma batch_split:
  assumes "process_events (se_world env i) ((wk_runtime (sv_workers sv ! i))\<lparr>wr_benchmark_recorder := sv_recorder sv\<rparr>)
      (wk_os (sv_workers sv ! i)) evs = Some (False, rt, s)"
  shows "server_step env config sv (Ev_Batch i (Some (evs @ evs'))) =
    run_steps env config sv [Ev_Batch i (Some evs), Ev_Batch i (Some evs')]"
  using assms
  by (simp add: server_step_def process_events_split Let_def split: option.splits)

section \<open>Every worker follows the protocol\<close>

definition serving :: "server_env \<Rightarrow> u32 \<Rightarrow> CampaignStoreSnapshot \<Rightarrow> server \<Rightarrow> bool" where
  "serving env mx store sv \<longleftrightarrow>
    (\<forall>i < length (sv_workers sv).
      wc_max_frame_size (wr_config (wk_runtime (sv_workers sv ! i))) = mx \<and>
      wr_campaign_store (wk_runtime (sv_workers sv ! i)) = Some store \<and>
      dialogue_run (w_lib (se_world env i)) mx store no_dialogue (dialogue_of (wk_os (sv_workers sv ! i))))"

lemma server_step_serving:
  assumes inv: "server_inv env sv" and sv: "serving env mx store sv"
    and step: "server_step env config sv e = Some sv'"
  shows "serving env mx store sv'"
proof (cases "\<exists>i evs. e = Ev_Batch i (Some evs)")
  case True
  then obtain i evs where "e = Ev_Batch i (Some evs)" by blast
  from batch_step [OF step [unfolded this]] obtain stop rt s where
    i: "i < length (sv_workers sv)"
    and pe: "process_events (se_world env i) ((wk_runtime (sv_workers sv ! i))\<lparr>wr_benchmark_recorder := sv_recorder sv\<rparr>)
      (wk_os (sv_workers sv ! i)) evs = Some (stop, rt, s)"
    and sv': "sv' = (let sv1 = sv\<lparr>sv_workers := (sv_workers sv)[i := \<lparr>wk_runtime = rt, wk_os = s, wk_running = \<not> stop\<rparr>],
        sv_recorder := wr_benchmark_recorder rt\<rparr>
      in if stop then request_shutdown (se_eventfd env) sv1 else sv1)" by metis
  have workers: "sv_workers sv' = (sv_workers sv)[i := \<lparr>wk_runtime = rt, wk_os = s, wk_running = \<not> stop\<rparr>]"
    using sv' by (simp add: request_shutdown_def Let_def)
  have "dialogue_run (w_lib (se_world env i)) mx store no_dialogue (dialogue_of s)"
    using process_events_follows [OF pe batch_worker_inv(2) [OF inv i]] sv i by (auto simp: serving_def)
  then show ?thesis
    using sv process_events_setup [OF pe] i
    by (auto simp: serving_def workers nth_list_update same_setup_def)
next
  case False
  then show ?thesis
    using sv step
    by (cases e) (auto simp: server_step_def handle_shutdown_signal_def request_shutdown_def serving_def
        Let_def split: if_splits option.splits)
qed

interpretation protocol: stepped_component "server_step env config"
  "\<lambda>sv. server_inv env sv \<and> serving env mx store sv" for env config mx store
  by unfold_locales (auto intro: server_step_inv server_step_serving)

lemma start_serving:
  assumes "environment_ok env" "start_workers env config store recorder n [] = Inl rts"
  shows "serving env (64 * 1024) store (start_state env recorder p rts)"
proof -
  have st: "length rts = n" "i < n \<Longrightarrow> started env config store recorder i (rts ! i)" for i
    using start_workers_spec [of env "[]" config store recorder n] assms by (simp_all add: environment_ok_def)
  have "wc_max_frame_size (wr_config (rts ! i)) = 64 * 1024 \<and> wr_campaign_store (rts ! i) = Some store"
    if "i < n" for i
    using st(2) [OF that] initialize_success(1,6) [of "se_files env"]
    by (fastforce simp: started_def fresh_runtime_owns worker_config_def default_WorkerConfig_def)
  moreover have "dialogue_of (se_os env i) = no_dialogue" for i
    using assms(1) by (simp add: environment_ok_def untouched_def dialogue_of_def no_dialogue_def)
  ultimately show ?thesis using st(1) by (simp add: serving_def start_state_def)
qed

lemma finished_serving:
  assumes env: "environment_ok env"
    and run: "run_server env p config evs = Some (code, p', gone, Some (sv, out, file))"
  shows "\<exists>store. load_campaign_store_snapshot (se_files env) (sc_campaign_data_path config) = Some store \<and>
    serving env (64 * 1024) store sv"
proof -
  obtain store p1 rts where
    store: "load_campaign_store_snapshot (se_files env) (sc_campaign_data_path config) = Some store"
    and rts: "start_workers env config store (make_recorder config) (nat (sc_workers config)) [] = Inl rts"
    and steps: "run_steps env config (start_state env (make_recorder config) p1 rts) evs = Some sv"
    using run by (auto simp: run_server_def Let_def split: if_splits option.splits prod.splits sum.splits)
  have "store_wf store" using load_store_wf [OF store] store env by (simp add: environment_ok_def)
  moreover have "\<And>r. make_recorder config = Some r \<Longrightarrow> br_requests r = []"
    by (auto simp: make_recorder_def new_recorder_def split: if_splits)
  ultimately have "server_inv env (start_state env (make_recorder config) p1 rts)"
    using start_inv(1) [OF env _ _ rts] by blast
  then show ?thesis
    using protocol.run_inv [OF steps [unfolded run_steps_partial]] start_serving [OF env rts] store by blast
qed

section \<open>Property\<close>

text \<open>
  C18. The server refines the protocol: in every run, for every interleaving of the threads, what
  each worker received, answered and sent came about by steps of the protocol, from nothing,
  on the store the server loaded; so on every connection all responses but the last were sent
  completely before the next request was read or answered.
\<close>

theorem server_refines_protocol:
  assumes "environment_ok env"
    and "load_campaign_store_snapshot (se_files env) (sc_campaign_data_path config) = Some store"
    and "run_server env p config evs = Some (code, p', gone, Some (sv, out, file))"
    and "i < length (sv_workers sv)"
  shows "dialogue_run (w_lib (se_world env i)) (64 * 1024) store no_dialogue (dialogue_of (wk_os (sv_workers sv ! i))) \<and>
    one_in_flight (w_lib (se_world env i)) (dialogue_of (wk_os (sv_workers sv ! i))) connection"
  using finished_serving [OF assms(1,3)] assms(2,4) run_in_flight by (auto simp: serving_def)

theorem server_refines_protocol_witness:
  "\<exists>store p' gone sv out written. run_server sample_env sample_process sample_server_config
      [Ev_Signal, Ev_Batch 0 (Some [sample_event 9 False])] = Some (0, p', gone, Some (sv, out, written)) \<and>
    length (sv_workers sv) = 1 \<and>
    dialogue_run sample_lib (64 * 1024) store no_dialogue (dialogue_of (wk_os (sv_workers sv ! 0)))"
proof -
  obtain store where store: "load_campaign_store_snapshot (se_files sample_env)
      (sc_campaign_data_path sample_server_config) = Some store" using sample_store by (auto simp: sample_env_simps)
  obtain p' gone sv out written where run: "run_server sample_env sample_process sample_server_config
      [Ev_Signal, Ev_Batch 0 (Some [sample_event 9 False])] = Some (0, p', gone, Some (sv, out, written))"
    "length (sv_workers sv) = 1" using sample_server_run by blast
  have "w_lib (se_world sample_env 0) = sample_lib" by (simp add: sample_env_simps sample_world_def)
  with server_refines_protocol [OF sample_environment_ok store run(1), of 0] run show ?thesis by auto
qed

end
