(* ===== verification/Spec2Isabelle.thy ===== *)
theory Spec2Isabelle
  imports Rtb_Main Rtb_Bench Rtb_Protocol
begin

text \<open>
  \<^bold>\<open>The real-time bidding engine\<close>

  The program is a TCP server that answers bid requests. A process (\<open>src/server.cc\<close>) loads a
  campaign file, starts worker threads that share it, and waits for them; each worker
  (\<open>src/worker_runtime.cc\<close>) runs an \<open>epoll\<close> loop over a listening socket and its connections.
  Bytes received go through a buffer that cuts frames (\<open>src/frame.cc\<close>), a frame is parsed by the
  protobuf library (\<open>src/parse.cc\<close>), normalised and validated (\<open>src/normalize.cc\<close>,
  \<open>src/handle_request.cc\<close>), candidates are looked up in the store (\<open>src/retrieve.cc\<close>), a price is
  drawn for each and the best is taken (\<open>src/decision.cc\<close>), and the response is built
  (\<open>src/response_builder.cc\<close>), framed (\<open>src/response_framing.cc\<close>) and sent. In benchmark mode a
  shared recorder keeps the timings and reports them (\<open>src/benchmark.cc\<close>). A second program
  (\<open>bench/request_pipeline_bench.cc\<close>) drives the same pipeline without sockets.

  \<^bold>\<open>Theories\<close>, in the order of the imports:

  \<^item> \<open>Rtb_Prelude\<close>: words as \<open>size_t\<close>, vectors, search and splitting of lists; the locales
    \<open>invariant_component\<close>, \<open>refined_component\<close> and \<open>stepped_component\<close> for components that are run by
    operations or by partial steps, with the reachable states as a step relation.
  \<^item> \<open>Rtb_Float\<close>: IEEE arithmetic as rounding of rationals (no infinities or NaN arise; a value
    beyond the range is refused where the code can meet one, in \<open>parse_double_value\<close>).
  \<^item> \<open>Rtb_Types\<close>: \<open>include/rtb/engine_types.h\<close>, \<open>config.h\<close>, \<open>constants.h\<close> and the messages of
    \<open>proto/rtb.proto\<close>.
  \<^item> \<open>Rtb_Frame\<close>: \<open>ReusableBuffer\<close> with its operations, the frame format as a specification
    (\<open>decode_frame\<close>, \<open>encode_frame\<close>, \<open>decode_stream\<close>), the refinement between the two, and the
    locale \<open>frame_reader\<close> for a client that feeds a buffer in pieces.
  \<^item> \<open>Rtb_Rng\<close>: \<open>WorkerRng\<close>; the xorshift step is a permutation of the nonzero states.
  \<^item> \<open>Rtb_Text\<close>: digits, \<open>std::to_string\<close>, \<open>std::from_chars\<close> and the parsers of
    \<open>src/campaign_store.cc\<close> and \<open>src/server.cc\<close> that demand a whole text.
  \<^item> \<open>Rtb_Normalize\<close>: \<open>src/normalize.cc\<close>. \<open>Rtb_Parse\<close>: \<open>src/parse.cc\<close> over the record
    \<open>proto_lib\<close> of the library's functions.
  \<^item> \<open>Rtb_Store\<close>: \<open>src/campaign_store.cc\<close>, the invariant \<open>store_wf\<close> of a loaded snapshot.
    \<open>Rtb_Retrieve\<close>: \<open>src/retrieve.cc\<close>; the locale \<open>campaign_index\<close> is the contract of an
    index and is interpreted for both indices. \<open>Rtb_Decision\<close>: \<open>src/decision.cc\<close>.
  \<^item> \<open>Rtb_Response\<close>: \<open>src/response_builder.cc\<close> and \<open>src/response_framing.cc\<close>.
  \<^item> \<open>Rtb_Benchmark\<close>: recorder and statistics of \<open>src/benchmark.cc\<close>; \<open>Rtb_Time\<close>: the time stamp,
    with the calendar; \<open>Rtb_Report\<close>: the printed summary and the JSON report, against a JSON
    value and its renderer. \<open>Rtb_Bench\<close>: \<open>bench/request_pipeline_bench.cc\<close>.
  \<^item> \<open>Rtb_Handle\<close>: \<open>src/handle_request.cc\<close>; the locale \<open>candidate_source\<close> is what it needs of a retrieval.
  \<^item> \<open>Rtb_Worker\<close>: \<open>src/worker_runtime.cc\<close>; \<open>Rtb_Worker_Inv\<close>: the invariant of a worker and its
    preservation by every handler; \<open>Rtb_Progress\<close>: every event is processed to its end;
    \<open>Rtb_Dialogue\<close>: the protocol with the clients as a step relation, and its refinement.
  \<^item> \<open>Rtb_Server_Config\<close>: the command line; \<open>Rtb_Server\<close>: \<open>run_server\<close> with signals, threads,
    the benchmark timer and the report. \<open>Rtb_Log\<close>: what a start
    writes to standard error (\<open>include/logs/logs.h\<close>). \<open>Rtb_Main\<close>: \<open>src/main.cc\<close>. \<open>Rtb_Shutdown\<close>: how the
    threads coordinate in every reachable state, and how a run comes to its end.
    \<open>Rtb_Protocol\<close>: the protocol for all workers of the server. \<open>Rtb_Sample\<close>:
    complete runs that instantiate the properties.

  \<^bold>\<open>State and environment.\<close> Every function passes its state explicitly. What the code learns
  from the kernel (results of \<open>read\<close>, \<open>write\<close>, \<open>accept4\<close>, \<open>epoll_ctl\<close>, \<open>epoll_wait\<close>, the clock,
  the files) is an argument; what it tells the kernel is recorded in \<open>os\<close>. The protobuf library
  is the record \<open>proto_lib\<close>; the laws assumed of it are \<open>serializes\<close> (a serialisation has
  the length \<open>ByteSizeLong\<close> reported) and, for the benchmark program, \<open>reads_back\<close> (a serialised
  request parses as itself) and \<open>short_responses_fit\<close> (a response with a request id and short texts
  has between one and 65536 bytes).
  \<open>None\<close> as the result of a handler also stands for the end of the process by \<open>SIGPIPE\<close>: a
  \<open>write\<close> on a connection its client has closed raises it, and the code leaves its default action
  in place. Theorems about runs concern those in which it does not happen.
  The theorems hold for every such environment, so also for partial reads and writes,
  interrupted calls, failing registrations, spurious events and any interleaving of threads.

  \<^bold>\<open>What the lemmas show.\<close> The component theories establish the functional behaviour on every
  branch and an invariant with its preservation: \<open>buffer_wf\<close>, \<open>rng_wf\<close>, \<open>store_wf\<close>; here the
  properties that span components follow from the invariant of a worker: the streams of a
  connection (C1), the origin of every answer and the clock reading it rests on (C2), nothing left behind (C3), independence of
  fragmentation (C8), the limit of the read buffer (C22) and progress on every event (C19); and from that
  of the server: records (C13), handlers (C14), descriptors (C15), shutdown (C16), the request
  limit (C20) and the exit code (C21). The detailed handlers refine an abstract protocol (C18).

  \<^bold>\<open>Bounds.\<close> A vector is shorter than \<open>max_vec\<close>, which is below \<open>2 ^ 63\<close>. The store
  lemmas need \<open>store_fits\<close>: at most \<open>2 ^ 32\<close> campaigns and creatives, since the code narrows
  indices to 32 bits. Frame lemmas need a maximum frame size of at most \<open>2 ^ 32 - 5\<close>, since
  the total is narrowed to 32 bits; the code configures \<open>2 ^ 16\<close>. The fuel 16385 of \<open>feed\<close>
  exceeds the number of frames a default buffer of 16384 bytes can hold, because each has at
  least five bytes. Loops over results of system calls consume a list of results; a list that
  ends while the code still asks is not a run (\<open>None\<close>). Every other loop is a total function.

  \<^bold>\<open>Not modelled.\<close> The log lines of running workers, and \<open>LOG\<close>, which \<open>kEnableLogs\<close> compiles out;
  the wire encoding of protobuf, which is not under \<open>src\<close>; data races inside the recorder, whose
  operations hold a mutex and are atomic here, and interleavings finer than the handling of
  one event; what becomes of a process after \<open>SIGPIPE\<close>; the allocator failing; an output stream failing after it was opened; clocks
  before 1970. Tests and the traffic simulator under \<open>tools/\<close> are no part of the engine.
\<close>

section \<open>The worker\<close>

text \<open>
  C1. The streams of every connection are consistent after any run of a worker, whatever the
  kernel does: what a connection received is the encoding of the requests answered on it,
  followed by the bytes not yet consumed, and what it sent, followed by what is still to be
  sent, is the encoding of their responses in the order of the requests. Nothing is lost,
  repeated, reordered or sent to another connection; the loop ends with zero.
\<close>

theorem worker_streams_consistent:
  assumes "worker_setup files su config w s rt"
    and "run_worker_loop w rt s batches = Some (code, rt', s')"
  shows "code = 0 \<and> (\<exists>unread unsent.
    os_recv s' i = concat (map encode_frame (requests_of s' i)) @ unread \<and>
    os_sent s' i @ unsent = concat (map encode_frame (responses_of (w_lib w) s' i)))"
  using run_worker_loop_inv [OF assms(2) worker_setup_inv [OF assms(1)]] worker_invD(7)
  by (fastforce simp: streamed_def stream_ok_def)

theorem worker_streams_consistent_witness:
  "\<exists>rt rt' s' unsent. worker_setup (\<lambda>_. Some sample_csv) sample_startup sample_config sample_world sample_os rt \<and>
    run_worker_loop sample_world rt sample_os sample_batches = Some (0, rt', s') \<and>
    os_sent s' 1 = [0, 0, 0, 2, 7, 7] \<and>
    os_sent s' 1 @ unsent = concat (map encode_frame (responses_of sample_lib s' 1))"
proof -
  obtain rt where rt: "worker_setup (\<lambda>_. Some sample_csv) sample_startup sample_config sample_world sample_os rt"
    using sample_setup by blast
  obtain rt' s' where run: "run_worker_loop sample_world rt sample_os sample_batches = Some (0, rt', s')"
    "os_sent s' 1 = [0, 0, 0, 2, 7, 7]" using sample_run [OF rt] by blast
  have "w_lib sample_world = sample_lib" by (simp add: sample_world_def)
  with worker_streams_consistent [OF rt run(1), of 1] rt run show ?thesis by metis
qed

text \<open>
  C2. Every answer of a worker comes out of the pipeline: each answered request is a frame body
  of permitted size that the library parses into a complete request whose context is valid,
  and its response is the one built from the decision of the pipeline on the loaded store, for
  some state of the generator and its time of arrival: the reading of the clock made right
  after the request was parsed, the fourth since its frame was taken up. The requests are taken
  up one after another, each after all the readings that belong to the one before.
\<close>

theorem worker_answers_come_from_pipeline:
  assumes "worker_setup files su config w s rt" and "wr_campaign_store rt = Some store"
    and "run_worker_loop w rt s batches = Some (code, rt', s')"
  shows "list_all2 (\<lambda>t (i, p, r).
      answer_at (w_lib w) (wc_max_frame_size (wr_config rt)) store (w_clock w (t + 3)) p r)
      (os_arrivals s') (os_log s') \<and>
    sorted_wrt (\<lambda>t u. t + 3 < u) (os_arrivals s')"
  using worker_invD(3) [OF run_worker_loop_inv(2) [OF assms(3) worker_setup_inv [OF assms(1)]]]
    run_worker_loop_setup [OF assms(3)] assms(2)
  by (auto simp: answered_def same_setup_def elim!: list_all2_mono)

theorem worker_answers_come_from_pipeline_witness:
  "\<exists>rt rt' s' store r. run_worker_loop sample_world rt sample_os sample_batches = Some (0, rt', s') \<and>
    os_log s' = [(1, [42], r)] \<and> wr_campaign_store rt = Some store \<and> answer_at sample_lib 65536 store 5 [42] r"
proof -
  obtain rt where rt: "worker_setup (\<lambda>_. Some sample_csv) sample_startup sample_config sample_world sample_os rt"
    using sample_setup by blast
  obtain store where st: "wr_campaign_store rt = Some store"
    using worker_invD(1) [OF worker_setup_inv [OF rt]] by (auto simp: env_ok_def)
  have cfg: "wc_max_frame_size (wr_config rt) = 65536"
    using rt initialize_success(1) by (fastforce simp: worker_setup_def empty_runtime_def sample_config_def default_WorkerConfig_def)
  obtain rt' s' r where run: "run_worker_loop sample_world rt sample_os sample_batches = Some (0, rt', s')"
    "os_log s' = [(1, [42], r)]" using sample_run [OF rt] by blast
  have "answer_at sample_lib 65536 store 5 [42] r"
    using worker_answers_come_from_pipeline [OF rt st run(1)] run(2) cfg
    by (auto simp: sample_world_def list_all2_Cons2)
  then show ?thesis using st run by blast
qed

text \<open>
  C3. Nothing is left undone between two events: for every open connection the flag, the send
  buffer and the registration with \<open>epoll\<close> agree, and either bytes are to be sent and the
  connection is registered for writing, or every complete frame received has been answered
  and every answer has been handed over to the kernel.
\<close>

theorem no_request_left_behind:
  assumes "worker_setup files su config w s rt"
    and "run_worker_loop w rt s batches = Some (code, rt', s')"
    and "wr_connections rt' fd = Some cn"
  shows "cn_fd cn = fd \<and> (cn_has_pending_write cn \<longleftrightarrow> pending (cn_write_buffer cn) \<noteq> []) \<and>
    os_interest s' fd = Some (cn_has_pending_write cn) \<and>
    (cn_has_pending_write cn \<or>
      requests_of s' (cn_connection_id cn) =
        fst (decode_stream (unat (wc_max_frame_size (wr_config rt))) (os_recv s' (cn_connection_id cn))) \<and>
      os_sent s' (cn_connection_id cn) =
        concat (map encode_frame (responses_of (w_lib w) s' (cn_connection_id cn))))"
proof -
  note inv = run_worker_loop_inv(2) [OF assms(2) worker_setup_inv [OF assms(1)]]
  have cfg: "wr_config rt' = wr_config rt" using run_worker_loop_setup [OF assms(2)] by (simp add: same_setup_def)
  let ?mx = "unat (wc_max_frame_size (wr_config rt))" and ?i = "cn_connection_id cn"
  note c = connection_invD [OF worker_invD(5) [OF inv assms(3)]]
  have mx: "?mx < 2 ^ 32" using worker_invD(1) [OF inv] cfg by (simp add: env_ok_def)
  have bodies: "\<forall>p \<in> set (requests_of s' ?i). p \<noteq> [] \<and> length p \<le> ?mx"
    using answeredD(1) [OF worker_invD(3) [OF inv]] cfg
    by (auto simp: answer_ok_def answer_at_def requests_of_def)
  have "requests_of s' ?i = fst (decode_stream ?mx (os_recv s' ?i))" if "\<not> cn_has_pending_write cn"
  proof -
    have "decode_stream ?mx (pending (cn_read_buffer cn)) = ([], pending (cn_read_buffer cn))"
      using c(5) that cfg by (simp add: idle_def decode_stream.simps)
    with decode_stream_encoded [OF bodies mx, of "pending (cn_read_buffer cn)"] c(3) show ?thesis
      by (simp add: live_def stream_ok_def)
  qed
  with c show ?thesis by (auto simp: synced_def live_def stream_ok_def)
qed

theorem no_request_left_behind_witness:
  "\<exists>rt rt' s' cn. run_worker_loop sample_world rt sample_os sample_batches = Some (0, rt', s') \<and>
    wr_connections rt' 7 = Some cn \<and> os_interest s' 7 = Some False \<and>
    requests_of s' (cn_connection_id cn) = fst (decode_stream 65536 (os_recv s' (cn_connection_id cn)))"
proof -
  obtain rt where rt: "worker_setup (\<lambda>_. Some sample_csv) sample_startup sample_config sample_world sample_os rt"
    using sample_setup by blast
  obtain rt' s' cn where run: "run_worker_loop sample_world rt sample_os sample_batches = Some (0, rt', s')"
    "wr_connections rt' 7 = Some cn" "\<not> cn_has_pending_write cn" using sample_run [OF rt] by blast
  have "wc_max_frame_size (wr_config rt) = 65536"
    using rt initialize_success(1)
    by (fastforce simp: worker_setup_def empty_runtime_def sample_config_def default_WorkerConfig_def)
  with no_request_left_behind [OF rt run(1,2)] run show ?thesis by auto
qed

text \<open>
  C8. The requests a connection delivers do not depend on how the network cuts the stream:
  frames sent one after another come out as exactly those bodies in that order, for every
  division into reads that fit the buffer, and at the end no byte is left in the buffer.
\<close>

theorem fragmentation_irrelevant:
  assumes "list_all (\<lambda>p. p \<noteq> [] \<and> length p \<le> 64 * 1024) ps"
    and "concat chunks = concat (map encode_frame ps)"
    and "feed_ok has_room put_bytes (next_frame default_max_frame) 16385
      (reserve empty_buffer default_capacity) chunks"
  shows "\<exists>b. feed put_bytes (next_frame default_max_frame) 16385
      (reserve empty_buffer default_capacity) chunks = (ps, b) \<and>
    buffer_wf b \<and> pending b = [] \<and> readable_bytes b = 0"
proof -
  have cap: "unat default_capacity < max_vec" by (simp add: default_capacity_def max_vec_def)
  have b: "read_buffer_inv default_capacity (reserve empty_buffer default_capacity)"
    "pending (reserve empty_buffer default_capacity) = []"
    using reserve_wf [OF buffer_wf_empty cap] reserve_size [OF buffer_wf_empty cap]
    by (simp add: read_buffer_inv_def empty_buffer_def)
      (simp add: reserve_pending [OF buffer_wf_empty])
  have empty: "decode_stream (64 * 1024) [] = ([], [])"
    by (simp add: decode_stream.simps decode_frame_def)
  have "decode_stream (64 * 1024) (concat chunks) = (ps, [])"
    using decode_stream_encoded [of ps "64 * 1024" "[]"] assms(1,2) empty by (simp add: list_all_iff)
  with reader.feed_decodes [OF b(1) _ assms(3)] b(2) empty obtain b' where
    f: "feed put_bytes (next_frame default_max_frame) 16385 (reserve empty_buffer default_capacity) chunks = (ps, b')"
    and b': "read_buffer_inv default_capacity b'" "pending b' = []" by auto
  have wf: "buffer_wf b'" using b'(1) by (simp add: read_buffer_inv_def)
  show ?thesis
    by (intro exI [of _ b'] conjI f wf b'(2)) (simp add: readable_zero_iff [OF wf] b'(2))
qed

theorem fragmentation_irrelevant_witness:
  "\<exists>b. feed put_bytes (next_frame default_max_frame) 16385 (reserve empty_buffer default_capacity)
    [[0, 0, 0, 1, 42, 0, 0, 0, 2, 7, 8]] = ([[42], [7, 8]], b) \<and> pending b = []"
proof -
  let ?b = "reserve empty_buffer default_capacity"
  have cap: "unat default_capacity < max_vec" by (simp add: default_capacity_def max_vec_def)
  have wf: "buffer_wf ?b" using reserve_wf [OF buffer_wf_empty cap] .
  have "length (storage ?b) = 16384" using reserve_size [OF buffer_wf_empty cap]
    by (simp add: default_capacity_def empty_buffer_def)
  moreover have "write_offset ?b = 0" by (simp add: reserve_def empty_buffer_def)
  ultimately have "unat (snd (writable_region ?b)) = 16384" using writable_region_wf [OF wf] by simp
  then have "has_room ?b [0, 0, 0, 1, 42, 0, 0, 0, 2, 7, 8]" by (auto simp: has_room_def make_room_def)
  then have "feed_ok has_room put_bytes (next_frame default_max_frame) 16385 ?b [[0, 0, 0, 1, 42, 0, 0, 0, 2, 7, 8]]"
    by simp
  from fragmentation_irrelevant [OF _ _ this, of "[[42], [7, 8]]"] show ?thesis
    by (auto simp: encode_frame_def be_bytes_def simp del: feed.simps)
qed

text \<open>
  C22. The read buffer bounds the requests below the configured frame size: after any run of a
  worker, no request was answered whose body with its four bytes of length exceeds the buffer
  capacity, and no connection is open whose read buffer is full, since one that fills up with an
  unfinished frame is closed. With the default configuration the capacity is 16384, so bodies of
  more than 16380 bytes are never answered, although bodies of up to 65536 are permitted.
\<close>

theorem oversized_requests_close:
  assumes "worker_setup files su config w s rt"
    and "run_worker_loop w rt s batches = Some (code, rt', s')"
    and "wc_connection_buffer_capacity config \<noteq> 0"
  shows "list_all (\<lambda>(i, p, r). length p + 4 \<le> unat (wc_connection_buffer_capacity config)) (os_log s') \<and>
    (case wr_connections rt' fd of
       None \<Rightarrow> True
     | Some cn \<Rightarrow> length (pending (cn_read_buffer cn)) < unat (wc_connection_buffer_capacity config)) \<and>
    unat (wc_connection_buffer_capacity (default_WorkerConfig dir)) = 16384 \<and>
    unat (wc_max_frame_size (default_WorkerConfig dir)) = 65536"
proof -
  note inv = run_worker_loop_inv(2) [OF assms(2) worker_setup_inv [OF assms(1)]]
  have cfg: "wr_config rt' = config"
    using run_worker_loop_setup [OF assms(2)] assms(1) initialize_success(1)
    by (fastforce simp: same_setup_def worker_setup_def empty_runtime_def)
  have "length (pending (cn_read_buffer cn)) < unat (wc_connection_buffer_capacity config)"
    if "wr_connections rt' fd = Some cn" for cn
    using connection_invD(3,7) [OF worker_invD(5) [OF inv that]] assms(3) cfg
    by (auto simp: live_def roomy_def unat_eq_0)
  moreover have "list_all (\<lambda>(i, p, r). length p + 4 \<le> unat (wc_connection_buffer_capacity config)) (os_log s')"
    using answeredD(2) [OF worker_invD(3) [OF inv]] cfg by (fastforce simp: list_all_iff)
  ultimately show ?thesis by (simp add: default_WorkerConfig_def split: option.splits)
qed

text \<open>A buffer of eight bytes, so a body of at most four.\<close>

theorem oversized_requests_close_witness:
  "\<exists>rt rt' s' cn r. run_worker_loop sample_world rt sample_os sample_batches = Some (0, rt', s') \<and>
    wr_connections rt' 7 = Some cn \<and> length (pending (cn_read_buffer cn)) < 8 \<and>
    os_log s' = [(1, [42], r)] \<and> list_all (\<lambda>(i, p, r). length p \<le> 4) (os_log s')"
proof -
  obtain rt where rt: "worker_setup (\<lambda>_. Some sample_csv) sample_startup sample_config sample_world sample_os rt"
    using sample_setup by blast
  obtain rt' s' r cn where run: "run_worker_loop sample_world rt sample_os sample_batches = Some (0, rt', s')"
    "os_log s' = [(1, [42], r)]" "wr_connections rt' 7 = Some cn" using sample_run [OF rt] by blast
  have "wc_connection_buffer_capacity sample_config = 8" by (simp add: sample_config_def)
  then have "length (pending (cn_read_buffer cn)) < 8" "list_all (\<lambda>(i, p, r). length p \<le> 4) (os_log s')"
    using oversized_requests_close [OF rt run(1), where fd = 7] run(2,3) by simp_all
  with run show ?thesis by blast
qed

text \<open>
  C19. A worker is never stuck: after any run, whichever event comes next, on a connection in
  whatever state, on the listening socket or on a descriptor that is gone, it is processed to
  its end without undefined behaviour in any component, whatever finitely many results the kernel
  gives before "try again" within the contract of its calls: pieces of any size from one byte to
  as many as were asked for, interrupts, errors, the end of the stream, and new descriptors that
  are not in use. Writing to a connection its client has closed is excluded: the signal it raises
  ends the process.
\<close>

theorem worker_never_stuck:
  assumes "worker_setup files su config w s0 rt0"
    and "run_worker_loop w rt0 s0 batches = Some (code, rt, s)"
    and "results_within rt (ev_fd ev) reads writes"
    and "distinct fds" and "list_all (\<lambda>n. wr_connections rt (int n) = None) fds"
  shows "process_events w rt (offer s reads writes fds) [ev] \<noteq> None"
  using event_returns [OF run_worker_loop_inv(2) [OF assms(2) worker_setup_inv [OF assms(1)]] assms(3,4)]
    assms(5) by (simp add: list_all_iff)

theorem worker_never_stuck_witness:
  "\<exists>rt rt' s'. worker_setup (\<lambda>_. Some sample_csv) sample_startup sample_config sample_world sample_os rt \<and>
    run_worker_loop sample_world rt sample_os sample_batches = Some (0, rt', s') \<and>
    process_events sample_world rt' (offer s' [Rd_Bytes [0, 0, 0], Rd_EINTR, Rd_Bytes [9, 255]] [] [])
      [sample_event 7 False] \<noteq> None"
proof -
  obtain rt where rt: "worker_setup (\<lambda>_. Some sample_csv) sample_startup sample_config sample_world sample_os rt"
    using sample_setup by blast
  obtain rt' s' cn where run: "run_worker_loop sample_world rt sample_os sample_batches = Some (0, rt', s')"
    and cn: "wr_connections rt' 7 = Some cn" "cn_read_buffer cn = sample_buffer [0, 0, 0, 1, 42, 0, 0, 0] 0"
    using sample_run [OF rt] by blast
  have "reads_within (cn_read_buffer cn) [Rd_Bytes [0, 0, 0], Rd_EINTR, Rd_Bytes [9, 255]]"
    by (simp add: cn reads_within.simps make_room_def writable_region_def vec_size_def receive_def
        commit_write_def write_span_def overwrite_def Let_def)
  then have "results_within rt' (ev_fd (sample_event 7 False)) [Rd_Bytes [0, 0, 0], Rd_EINTR, Rd_Bytes [9, 255]] []"
    using cn(1) by (simp add: results_within_def sample_event_def)
  from worker_never_stuck [OF rt run this, of "[]"]
  have "process_events sample_world rt' (offer s' [Rd_Bytes [0, 0, 0], Rd_EINTR, Rd_Bytes [9, 255]] [] [])
      [sample_event 7 False] \<noteq> None" by simp
  with rt run show ?thesis by blast
qed

section \<open>The server\<close>

text \<open>
  C13. A run of the server that starts its workers ends with exit code zero and the signal
  handlers the process had before, all worker threads at the end of their loops, and in
  benchmark mode the shared recorder holds exactly one record for every request answered by
  any of the workers, whatever the interleaving of their batches, signals and the timer; the
  summary of these records is what is printed.
\<close>

theorem server_records_every_answer:
  assumes "environment_ok env" and "run_server env p config evs = Some (code, p', gone, Some (sv, out, file))"
  shows "code = 0 \<and> pr_sigint p' = pr_sigint p \<and> pr_sigterm p' = pr_sigterm p \<and>
    list_all (\<lambda>wk. \<not> wk_running wk) (sv_workers sv) \<and>
    (case sv_recorder sv of
       None \<Rightarrow> \<not> sc_benchmark config \<and> out = listening_line config \<and> file = None
     | Some b \<Rightarrow> sc_benchmark config \<and>
         length (br_requests b) = (\<Sum>wk \<leftarrow> sv_workers sv. length (os_log (wk_os wk))) \<and>
         (\<exists>summary. print_summary (se_ldp env) b = Some summary \<and> out = listening_line config @ summary))"
  using run_server_finished [OF assms]
  by (auto simp: server_inv_def answers_total_def list_all_iff report_benchmark_def Let_def
      split: option.splits if_splits)

theorem server_records_every_answer_witness:
  "\<exists>p' gone sv out file. run_server sample_env sample_process sample_server_config
      [Ev_Signal, Ev_Batch 0 (Some [sample_event 9 False])] = Some (0, p', gone, Some (sv, out, file)) \<and>
    pr_sigint p' = Sig_Previous 1 \<and> pr_sigterm p' = Sig_Previous 2"
proof -
  obtain p' gone sv out written where run: "run_server sample_env sample_process sample_server_config
      [Ev_Signal, Ev_Batch 0 (Some [sample_event 9 False])] = Some (0, p', gone, Some (sv, out, written))"
    using sample_server_run by blast
  from server_records_every_answer [OF sample_environment_ok run] run show ?thesis
    by (simp add: sample_process_def)
qed

text \<open>
  C14. When the server refuses to run, whether for its configuration, the campaign data, the
  event descriptor, a signal handler or a worker that does not start, the exit code is one
  and the signal handlers are those the process had before.
\<close>

theorem refused_run_restores_handlers:
  assumes "run_server env p config evs = Some (code, p', gone, None)"
  shows "code = 1 \<and> pr_sigint p' = pr_sigint p \<and> pr_sigterm p' = pr_sigterm p"
  using run_server_refused [OF assms] by blast

theorem refused_run_restores_handlers_witness:
  "\<exists>p' gone. run_server (sample_env\<lparr>se_sigterm_ok := False\<rparr>) sample_process sample_server_config [] =
    Some (1, p', gone, None) \<and> pr_sigint p' = Sig_Previous 1"
proof -
  obtain store where store: "load_campaign_store_snapshot (\<lambda>_. Some sample_csv)
      (sc_campaign_data_path sample_server_config) = Some store" using sample_store by blast
  have "\<exists>code p' gone. run_server (sample_env\<lparr>se_sigterm_ok := False\<rparr>) sample_process sample_server_config [] =
    Some (code, p', gone, None)"
    using store by (simp add: run_server_def sample_env_simps sample_server_config_def empty_ServerConfig_def
        install_signal_handlers_def Let_def)
  with refused_run_restores_handlers show ?thesis by (fastforce simp: sample_process_def)
qed

text \<open>
  C15. No descriptor leaks when a worker does not start: exactly the descriptors opened by the
  failing worker and by the workers before it are closed. Otherwise all workers are up, each
  initialised on the shared store.
\<close>

theorem failed_start_closes_everything:
  assumes "descriptors_ok env"
  shows "case start_workers env config store recorder n [] of
      Inl rts \<Rightarrow> length rts = n \<and> list_all (\<lambda>rt. wr_campaign_store rt = Some store) rts
    | Inr gone \<Rightarrow> \<exists>k < n. gone = (\<Union>i \<le> k. opened (se_startup env i))"
proof -
  have "wr_campaign_store rt = Some store" if "started env config store recorder i rt" for i rt
    using that initialize_success(6) by (fastforce simp: started_def fresh_runtime_owns)
  then show ?thesis
    using start_workers_spec [OF assms, of "[]" config store recorder n]
    by (auto simp: list_all_length split: sum.splits)
qed

theorem failed_start_closes_everything_witness:
  "\<exists>store gone k. start_workers (sample_env\<lparr>se_startup := \<lambda>i. if i = 0 then sample_startup
      else sample_startup\<lparr>su_socket := 5, su_bind := False\<rparr>\<rparr>) sample_server_config store None 2 [] = Inr gone \<and>
    k < (2::nat) \<and> gone = (\<Union>i \<le> k. if i = 0 then {3, 4} else {5})"
proof -
  let ?env = "sample_env\<lparr>se_startup := \<lambda>i. if i = 0 then sample_startup
      else sample_startup\<lparr>su_socket := 5, su_bind := False\<rparr>\<rparr>"
  obtain store where "load_campaign_store_snapshot (\<lambda>_. Some sample_csv) [] = Some store" using sample_store by blast
  have "\<exists>gone. start_workers ?env sample_server_config store None (Suc (Suc 0)) [] = Inr gone"
    by (simp add: start_workers_Suc initialize_worker_runtime_def fresh_runtime_owns sample_env_simps
        sample_startup_def worker_config_def Let_def case_prod_beta)
  then obtain gone where gone: "start_workers ?env sample_server_config store None 2 [] = Inr gone"
    by (auto simp: numeral_2_eq_2)
  have "descriptors_ok ?env" by (simp add: descriptors_ok_def sample_startup_def)
  from failed_start_closes_everything [OF this, where config = sample_server_config and store = store and recorder = None and n = 2] gone
  obtain k where k: "k < 2" "gone = (\<Union>i \<le> k. opened (se_startup ?env i))" by auto
  have "opened (se_startup ?env i) = (if i = 0 then {3, 4} else {5})" for i
    by (simp add: opened_def sample_startup_def)
  with gone k show ?thesis by blast
qed

end
